theory Spec2Isabelle
  imports Main "HOL-Library.Sublist"
begin

section \<open>DNS zone generation of \<open>management/dns_update.py\<close>\<close>

text \<open>
  A shallow embedding of \<open>management/dns_update.py\<close>.  Python strings are lists of
  characters; a \<^typ>\<open>char\<close> stands for the code point of the same number
  (U+0000 to U+00FF).  The file system is a map from path names to file contents:
  the text that \<open>read()\<close> returns for the file.  All files are opened in text mode, where
  reading turns every CR and CRLF into LF, so a write stores the text with these
  replaced.  \<open>os.path.exists\<close> is definedness of the map, and writing a file always
  succeeds.  An exception is a value of type \<open>error\<close>.  The clock, the order in which
  Python iterates over the set of domains, and the answer of the remote API are inputs.
\<close>

subsection \<open>Characters and strings\<close>

abbreviation NL :: char where "NL \<equiv> CHR 0x0A"
abbreviation TAB :: char where "TAB \<equiv> CHR 0x09"
abbreviation DQ :: char where "DQ \<equiv> CHR 0x22"
abbreviation CR :: char where "CR \<equiv> CHR 0x0D"

text \<open>The class \<open>\s\<close> of \<open>re\<close> on str patterns, for code points below 256.\<close>

definition is_space :: "char \<Rightarrow> bool" where
  "is_space c \<longleftrightarrow> c \<in> set [CHR 0x09, CHR 0x0A, CHR 0x0B, CHR 0x0C, CHR 0x0D,
     CHR 0x1C, CHR 0x1D, CHR 0x1E, CHR 0x1F, CHR 0x20, CHR 0x85, CHR 0xA0]"

text \<open>The class \<open>\d\<close>: below 256 the decimal digits are the ASCII ones.\<close>

definition is_digit :: "char \<Rightarrow> bool" where
  "is_digit c \<longleftrightarrow> c \<in> set ''0123456789''"

text \<open>\<open>int(s)\<close> on a string of ASCII digits, and \<open>str(n)\<close> on a natural number.\<close>

definition digit_val :: "char \<Rightarrow> nat" where
  "digit_val c = of_char c - 48"

definition int_of_str :: "string \<Rightarrow> nat" where
  "int_of_str s = foldl (\<lambda>a c. 10 * a + digit_val c) 0 s"

fun str_of_nat :: "nat \<Rightarrow> string" where
  "str_of_nat n = (if n < 10 then [''0123456789'' ! n]
     else str_of_nat (n div 10) @ [''0123456789'' ! (n mod 10)])"

declare str_of_nat.simps [simp del]

text \<open>Python's \<open>a >= b\<close> on strings: lexicographic, by code point.\<close>

fun str_ge :: "string \<Rightarrow> string \<Rightarrow> bool" where
  "str_ge xs [] = True"
| "str_ge [] (y # ys) = False"
| "str_ge (x # xs) (y # ys) =
     ((of_char y :: nat) < of_char x \<or> (x = y \<and> str_ge xs ys))"

text \<open>\<open>s.replace(old, new)\<close>: every non-overlapping occurrence, from the left.\<close>

function replace_str :: "string \<Rightarrow> string \<Rightarrow> string \<Rightarrow> string" where
  "replace_str old new [] = (if old = [] then new else [])"
| "replace_str old new (c # cs) =
     (if old = [] then new @ c # replace_str old new cs
      else if prefix old (c # cs) then new @ replace_str old new (drop (length old - 1) cs)
      else c # replace_str old new cs)"
  by pat_completeness auto
termination
  by (relation "measure (\<lambda>(old, new, s). length s)") auto

text \<open>
  What reading in text mode (universal newlines) makes of a text that was written:
  \<open>\r\n\<close> and \<open>\r\<close> become \<open>\n\<close>.
\<close>

fun universal_newlines :: "string \<Rightarrow> string" where
  "universal_newlines [] = []"
| "universal_newlines [c] = (if c = CR then [NL] else [c])"
| "universal_newlines (c # d # cs) =
     (if c = CR \<and> d = NL then NL # universal_newlines cs
      else if c = CR then NL # universal_newlines (d # cs)
      else c # universal_newlines (d # cs))"

text \<open>\<open>sep.join(xs)\<close>.\<close>

fun join :: "string \<Rightarrow> string list \<Rightarrow> string" where
  "join sep [] = []"
| "join sep [x] = x"
| "join sep (x # y # ys) = x @ sep @ join sep (y # ys)"

text \<open>\<open>s.lower()\<close> on ASCII letters, the only ones it is applied to.\<close>

definition lower_char :: "char \<Rightarrow> char" where
  "lower_char c =
     (case map_of (zip ''ABCDEFGHIJKLMNOPQRSTUVWXYZ'' ''abcdefghijklmnopqrstuvwxyz'') c of
        Some l \<Rightarrow> l
      | None \<Rightarrow> c)"

definition str_lower :: "string \<Rightarrow> string" where
  "str_lower s = map lower_char s"

text \<open>\<open>os.path.join(a, b)\<close> of posixpath.\<close>

definition path_join :: "string \<Rightarrow> string \<Rightarrow> string" where
  "path_join a b =
     (if prefix ''/'' b then b
      else if a = [] \<or> suffix ''/'' a then a @ b
      else a @ ''/'' @ b)"

subsection \<open>\<open>urllib.parse.quote\<close>\<close>

text \<open>
  The library function, as Python 3.7 and later define it.  The string is encoded as
  UTF-8; a byte is kept when it is one of the unreserved characters (letters, digits and
  \<open>_.-~\<close>) or an ASCII character of \<open>safe\<close>, and written as \<open>%XX\<close> with upper-case
  hexadecimal digits otherwise.
\<close>

definition always_safe :: string where
  "always_safe = ''ABCDEFGHIJKLMNOPQRSTUVWXYZabcdefghijklmnopqrstuvwxyz0123456789_.-~''"

definition hex_digit :: "nat \<Rightarrow> char" where
  "hex_digit n = ''0123456789ABCDEF'' ! n"

definition pct :: "nat \<Rightarrow> string" where
  "pct b = [CHR ''%'', hex_digit (b div 16), hex_digit (b mod 16)]"

definition utf8_bytes :: "char \<Rightarrow> nat list" where
  "utf8_bytes c = (let n = (of_char c :: nat) in
     if n < 128 then [n] else [192 + n div 64, 128 + n mod 64])"

definition quote_char :: "string \<Rightarrow> char \<Rightarrow> string" where
  "quote_char safe c =
     (if c \<in> set always_safe \<or> (c \<in> set safe \<and> (of_char c :: nat) < 128) then [c]
      else concat (map pct (utf8_bytes c)))"

definition quote :: "string \<Rightarrow> string \<Rightarrow> string" where
  "quote s safe = concat (map (quote_char safe) s)"

subsection \<open>Environment, records, state\<close>

record env =
  PUBLIC_HOSTNAME :: string
  PUBLIC_IP :: string
  STORAGE_ROOT :: string

text \<open>A resource record: \<open>(subdomain, querytype, value)\<close>, the subdomain possibly \<open>None\<close>.\<close>

type_synonym rr = "string option \<times> string \<times> string"

type_synonym files = "string \<rightharpoonup> string"

datatype error = AttributeError | FileNotFoundError | NotifierError

text \<open>
  The state outside the program: the files, the commands given to \<open>os.system\<close>, the
  requests sent by \<open>curl\<close> (URL and data) and the lines printed.
\<close>

record world =
  files :: files
  commands :: "string list"
  requests :: "(string \<times> string) list"
  stdout :: "string list"

text \<open>
  The expression \<open>json.loads(subprocess.check_output([...]).decode("utf8"))\<close> followed by
  \<open>resp.get("message", "?")\<close>: it raises, or gives the message.
\<close>

type_synonym api = "string \<Rightarrow> string \<Rightarrow> error + string"

subsection \<open>\<open>build_zone\<close>\<close>

text \<open>
  The longest prefix of the text after the opening parenthesis that ends in \<open>)\<close> and is
  followed by \<open>\s*;\<close>: what the greedy \<open>.*\)\<close> of the pattern takes, with \<open>re.S\<close>.
\<close>

definition semicolon_next :: "string \<Rightarrow> bool" where
  "semicolon_next s = (case dropWhile is_space s of [] \<Rightarrow> False | d # _ \<Rightarrow> d = CHR '';'')"

fun dkim_value :: "string \<Rightarrow> string option" where
  "dkim_value [] = None"
| "dkim_value (c # cs) =
     (case dkim_value cs of
        Some p \<Rightarrow> Some (c # p)
      | None \<Rightarrow> if c = CHR '')'' \<and> semicolon_next cs then Some [c] else None)"

text \<open>
  \<open>re.match(r"(\S+)\s+IN\s+TXT\s+(\(.*\))\s*;", s, re.S)\<close>: the two groups, or \<open>None\<close>.
  Each repetition is followed by a character outside its class, so it takes the whole run.
\<close>

definition dkim_match :: "string \<Rightarrow> (string \<times> string) option" where
  "dkim_match s =
     (let g1 = takeWhile (\<lambda>c. \<not> is_space c) s;
          r1 = dropWhile (\<lambda>c. \<not> is_space c) s;
          r2 = dropWhile is_space r1
      in if g1 = [] \<or> r2 = r1 \<or> \<not> prefix ''IN'' r2 then None
         else let r3 = drop 2 r2; r4 = dropWhile is_space r3
         in if r4 = r3 \<or> \<not> prefix ''TXT'' r4 then None
            else let r5 = drop 3 r4; r6 = dropWhile is_space r5
            in if r6 = r5 then None
               else (case r6 of
                   [] \<Rightarrow> None
                 | c # r7 \<Rightarrow>
                     if c \<noteq> CHR ''('' then None
                     else (case dkim_value r7 of
                         None \<Rightarrow> None
                       | Some body \<Rightarrow> Some (g1, CHR ''('' # body))))"

definition base_records :: "env \<Rightarrow> rr list" where
  "base_records env =
     [(None, ''NS'', ''ns1.'' @ PUBLIC_HOSTNAME env @ ''.''),
      (None, ''NS'', ''ns2.'' @ PUBLIC_HOSTNAME env @ ''.''),
      (None, ''A'', PUBLIC_IP env),
      (None, ''MX'', ''10 '' @ PUBLIC_HOSTNAME env @ ''.''),
      (None, ''TXT'', [DQ] @ ''v=spf1 mx -all'' @ [DQ]),
      (Some ''www'', ''A'', PUBLIC_IP env)]"

definition ns_records :: "env \<Rightarrow> rr list" where
  "ns_records env =
     [(Some ''ns1'', ''A'', PUBLIC_IP env),
      (Some ''ns2'', ''A'', PUBLIC_IP env)]"

definition policy_records :: "rr list" where
  "policy_records =
     [(Some ''_adsp._domainkey'', ''TXT'', [DQ] @ ''dkim=all'' @ [DQ]),
      (Some ''_dmarc'', ''TXT'', [DQ] @ ''v=DMARC1; p=quarantine'' @ [DQ])]"

definition build_zone :: "string \<Rightarrow> env \<Rightarrow> files \<Rightarrow> error + rr list" where
  "build_zone domain env fs =
     (let records = base_records env;
          records = (if domain = PUBLIC_HOSTNAME env then records @ ns_records env
                     else records);
          opendkim_record_file = path_join (STORAGE_ROOT env) ''mail/dkim/mail.txt''
      in case fs opendkim_record_file of
           None \<Rightarrow> Inr records
         | Some text \<Rightarrow>
             (case dkim_match text of
                None \<Rightarrow> Inl AttributeError
              | Some (g1, g2) \<Rightarrow>
                  Inr (records @ [(Some g1, ''TXT'', g2)] @ policy_records)))"

subsection \<open>\<open>write_nsd_zone\<close>\<close>

definition zone_template :: "string \<Rightarrow> string \<Rightarrow> string" where
  "zone_template domain primary_domain =
     [NL] @ ''$ORIGIN '' @ domain @
     ''.    ; default zone domain'' @ [NL] @
     ''$TTL 86400           ; default time to live'' @ [NL, NL] @
     ''@ IN SOA ns1.'' @ primary_domain @ ''. hostmaster.'' @ primary_domain @
     ''. ('' @ [NL] @ ''           __SERIAL__     ; serial number'' @ [NL] @
     ''           28800       ; Refresh'' @ [NL] @
     ''           7200        ; Retry'' @ [NL] @
     ''           864000      ; Expire'' @ [NL] @
     ''           86400       ; Min TTL'' @ [NL] @
     ''           )'' @ [NL]"

definition add_record :: "string \<Rightarrow> rr \<Rightarrow> string" where
  "add_record zone r =
     (case r of (subdomain, querytype, value) \<Rightarrow>
        (case subdomain of
           None \<Rightarrow> zone
         | Some s \<Rightarrow> if s \<noteq> [] then zone @ s else zone)
        @ [TAB] @ ''IN'' @ [TAB] @ querytype @ [TAB] @ value @ [NL])"

definition render_zone :: "string \<Rightarrow> rr list \<Rightarrow> env \<Rightarrow> string" where
  "render_zone domain records env =
     foldl add_record (zone_template domain (PUBLIC_HOSTNAME env)) records"

text \<open>
  \<open>(\d+)\s*;\s*serial number\<close> matched at the start of a string: groups 0 and 1.
  Digits, white space, \<open>;\<close> and \<open>s\<close> are disjoint, so every repetition takes its whole run.
\<close>

definition match_serial :: "string \<Rightarrow> (string \<times> string) option" where
  "match_serial s =
     (let ds = takeWhile is_digit s; r1 = dropWhile is_digit s;
          w1 = takeWhile is_space r1; r2 = dropWhile is_space r1
      in if ds = [] then None
         else (case r2 of
             [] \<Rightarrow> None
           | c # r3 \<Rightarrow>
               let w2 = takeWhile is_space r3; r4 = dropWhile is_space r3
               in if c = CHR '';'' \<and> prefix ''serial number'' r4
                  then Some (ds @ w1 @ '';'' @ w2 @ ''serial number'', ds)
                  else None))"

text \<open>\<open>re.search\<close>: the match at the leftmost position that has one.\<close>

fun search_serial :: "string \<Rightarrow> (string \<times> string) option" where
  "search_serial [] = None"
| "search_serial (c # cs) =
     (case match_serial (c # cs) of
        Some m \<Rightarrow> Some m
      | None \<Rightarrow> search_serial cs)"

text \<open>
  The serial to write, or \<open>None\<close> for the early \<open>return False\<close>.  \<open>serial\<close> is the value
  of \<open>time.strftime("%Y%m%d00")\<close>.
\<close>

definition choose_serial :: "string \<Rightarrow> string \<Rightarrow> string option \<Rightarrow> string option" where
  "choose_serial zone serial existing =
     (case existing of
        None \<Rightarrow> Some serial
      | Some existing_zone \<Rightarrow>
          (case search_serial existing_zone of
             None \<Rightarrow> Some serial
           | Some (m0, existing_serial) \<Rightarrow>
               let existing_zone =
                     replace_str m0 ''__SERIAL__     ; serial number'' existing_zone
               in if zone = existing_zone then None
                  else if str_ge existing_serial serial
                    then Some (str_of_nat (int_of_str existing_serial + 1))
                    else Some serial))"

definition write_nsd_zone ::
  "string \<Rightarrow> string \<Rightarrow> rr list \<Rightarrow> env \<Rightarrow> string \<Rightarrow> files \<Rightarrow> bool \<times> files" where
  "write_nsd_zone domain zonefile records env now fs =
     (let zone = render_zone domain records env
      in case choose_serial zone now (fs zonefile) of
           None \<Rightarrow> (False, fs)
         | Some serial \<Rightarrow>
             (True, fs(zonefile \<mapsto>
                universal_newlines (replace_str ''__SERIAL__'' serial zone))))"

subsection \<open>\<open>write_nsd_conf\<close> and \<open>write_opendkim_tables\<close>\<close>

definition nsd_conf :: "(string \<times> string) list \<Rightarrow> string" where
  "nsd_conf zonefiles =
     [NL] @ ''server:'' @ [NL] @ ''  hide-version: yes'' @ [NL, NL] @
     ''  # identify the server (CH TXT ID.SERVER entry).'' @ [NL] @
     ''  identity: '' @ [DQ, DQ, NL, NL] @
     ''  # The directory for zonefile: files.'' @ [NL] @
     ''  zonesdir: '' @ [DQ] @ ''/etc/nsd/zones'' @ [DQ, NL] @ ''  '' @ [NL] @
     ''# ZONES'' @ [NL] @
     concat (map (\<lambda>(domain, zonefile).
       [NL] @ ''zone:'' @ [NL, TAB] @ ''name: '' @ domain @ [NL, TAB] @
       ''zonefile: '' @ zonefile @ [NL]) zonefiles)"

definition write_nsd_conf :: "(string \<times> string) list \<Rightarrow> files \<Rightarrow> error + bool \<times> files" where
  "write_nsd_conf zonefiles fs =
     (let nsdconf = nsd_conf zonefiles
      in case fs ''/etc/nsd/nsd.conf'' of
           None \<Rightarrow> Inl FileNotFoundError
         | Some text \<Rightarrow>
             if text = nsdconf then Inr (False, fs)
             else Inr (True, fs(''/etc/nsd/nsd.conf'' \<mapsto> universal_newlines nsdconf)))"

definition write_opendkim_tables :: "(string \<times> string) list \<Rightarrow> env \<Rightarrow> files \<Rightarrow> files" where
  "write_opendkim_tables zonefiles env fs =
     (let opendkim_key_file = path_join (STORAGE_ROOT env) ''mail/dkim/mail.private''
      in if fs opendkim_key_file = None then fs
         else
           let fs = fs(''/etc/opendkim/KeyTable'' \<mapsto>
                 universal_newlines (join [NL] (map (\<lambda>(domain, zonefile).
                   domain @ '' '' @ domain @ '':mail:'' @ opendkim_key_file) zonefiles)))
           in fs(''/etc/opendkim/SigningTable'' \<mapsto>
                 universal_newlines (join [NL] (map (\<lambda>(domain, zonefile).
                   ''*@'' @ domain @ '' '' @ domain) zonefiles))))"

subsection \<open>\<open>justtestingdotemail\<close>\<close>

text \<open>\<open>re.sub("^\s*\(\s*([\w\W]*)\)", r"\1", value)\<close>: the text is cut at its last \<open>)\<close>.\<close>

fun split_last_close :: "string \<Rightarrow> (string \<times> string) option" where
  "split_last_close [] = None"
| "split_last_close (c # cs) =
     (case split_last_close cs of
        Some (b, r) \<Rightarrow> Some (c # b, r)
      | None \<Rightarrow> if c = CHR '')'' then Some ([], cs) else None)"

definition strip_parens :: "string \<Rightarrow> string" where
  "strip_parens v =
     (case dropWhile is_space v of
        [] \<Rightarrow> v
      | c # r2 \<Rightarrow>
          if c \<noteq> CHR ''('' then v
          else (case split_last_close (dropWhile is_space r2) of
              None \<Rightarrow> v
            | Some (b, r) \<Rightarrow> b @ r))"

text \<open>\<open>re.sub("\s+", " ", value)\<close>.\<close>

function collapse_ws :: "string \<Rightarrow> string" where
  "collapse_ws [] = []"
| "collapse_ws (c # cs) =
     (if is_space c then CHR '' '' # collapse_ws (dropWhile is_space cs)
      else c # collapse_ws cs)"
  by pat_completeness auto
termination
  by (relation "measure length") (auto simp: length_dropWhile_le less_Suc_eq_le)

fun notify_records :: "api \<Rightarrow> string \<Rightarrow> rr list \<Rightarrow> world \<Rightarrow> (error + unit) \<times> world" where
  "notify_records call domain [] w = (Inr (), w)"
| "notify_records call domain ((subdomain, querytype, value) # rest) w =
     (if querytype = ''NS'' then notify_records call domain rest w
      else if subdomain \<in> set [Some ''www'', Some ''ns1'', Some ''ns2'']
        then notify_records call domain rest w
      else
        let subdomain = (case subdomain of None \<Rightarrow> domain | Some s \<Rightarrow> s @ ''.'' @ domain)
        in if querytype = ''TXT'' then
             let value = collapse_ws (strip_parens value);
                 w = w\<lparr>stdout := stdout w @
                       [''Updating DNS for '' @ subdomain @ ''/'' @ querytype @ ''...'']\<rparr>;
                 url = ''https://api.dns4e.com/v7/'' @ quote subdomain ''/'' @ ''/'' @
                       str_lower querytype;
                 data = ''record='' @ quote value ''/'';
                 w = w\<lparr>requests := requests w @ [(url, data)]\<rparr>
             in (case call url data of
                   Inl e \<Rightarrow> (Inl e, w)
                 | Inr message \<Rightarrow>
                     notify_records call domain rest
                       (w\<lparr>stdout := stdout w @ [[TAB] @ ''... '' @ message]\<rparr>))
           else notify_records call domain rest w)"

definition justtestingdotemail ::
  "api \<Rightarrow> string \<Rightarrow> rr list \<Rightarrow> world \<Rightarrow> (error + unit) \<times> world" where
  "justtestingdotemail call domain records w =
     (if \<not> suffix ''.justtesting.email'' domain then (Inr (), w)
      else notify_records call domain records w)"

subsection \<open>\<open>do_dns_update\<close>\<close>

definition os_system :: "string \<Rightarrow> world \<Rightarrow> world" where
  "os_system cmd w = w\<lparr>commands := commands w @ [cmd]\<rparr>"

text \<open>
  One pass through the body of the loop over \<open>zonefiles\<close>: the error raised, or
  whether the domain is appended to \<open>updated_domains\<close>.
\<close>

definition update_zone ::
  "env \<Rightarrow> string \<Rightarrow> api \<Rightarrow> string \<Rightarrow> string \<Rightarrow> world \<Rightarrow> (error + bool) \<times> world" where
  "update_zone env now call domain zonefile w =
     (case build_zone domain env (files w) of
        Inl e \<Rightarrow> (Inl e, w)
      | Inr records \<Rightarrow>
          (case write_nsd_zone domain (''/etc/nsd/zones/'' @ zonefile) records env now (files w) of
             (False, fs) \<Rightarrow> (Inr False, w)
           | (True, fs) \<Rightarrow>
               (case justtestingdotemail call domain records (w\<lparr>files := fs\<rparr>) of
                  (Inl e, w) \<Rightarrow> (Inl e, w)
                | (Inr u, w) \<Rightarrow> (Inr True, w))))"

text \<open>The loop, with \<open>updated_domains\<close> as accumulator.\<close>

fun write_zones ::
  "env \<Rightarrow> string \<Rightarrow> api \<Rightarrow> (string \<times> string) list \<Rightarrow> string list \<Rightarrow> world \<Rightarrow>
   (error + string list) \<times> world" where
  "write_zones env now call [] updated_domains w = (Inr updated_domains, w)"
| "write_zones env now call ((domain, zonefile) # rest) updated_domains w =
     (case update_zone env now call domain zonefile w of
        (Inl e, w) \<Rightarrow> (Inl e, w)
      | (Inr changed, w) \<Rightarrow>
          write_zones env now call rest
            (if changed then updated_domains @ [domain] else updated_domains) w)"

text \<open>
  \<open>domains\<close> is the set \<open>{PUBLIC_HOSTNAME} \<union> get_mail_domains(env)\<close> in the order in
  which the \<open>for\<close> loop iterates over it; \<open>get_mail_domains\<close> is not part of this
  module, its result is the set \<open>mail_domains\<close>.  Directories are not part of the state,
  so \<open>os.makedirs\<close> leaves it as it is; the exit status of \<open>os.system\<close> is ignored by
  the code.
\<close>

definition domains_of :: "env \<Rightarrow> string set \<Rightarrow> string list \<Rightarrow> bool" where
  "domains_of env mail_domains domains \<longleftrightarrow>
     distinct domains \<and> set domains = insert (PUBLIC_HOSTNAME env) mail_domains"

definition zonefiles_of :: "string list \<Rightarrow> (string \<times> string) list" where
  "zonefiles_of domains = map (\<lambda>domain. (domain, quote domain [] @ ''.txt'')) domains"

definition do_dns_update ::
  "env \<Rightarrow> string list \<Rightarrow> string \<Rightarrow> api \<Rightarrow> world \<Rightarrow> (error + string) \<times> world" where
  "do_dns_update env domains now call w =
     (let zonefiles = zonefiles_of domains
      in case write_zones env now call zonefiles [] w of
           (Inl e, w) \<Rightarrow> (Inl e, w)
         | (Inr updated_domains, w) \<Rightarrow>
             (case write_nsd_conf zonefiles (files w) of
                Inl e \<Rightarrow> (Inl e, w)
              | Inr (changed, fs) \<Rightarrow>
                  let w = w\<lparr>files := fs\<rparr>;
                      updated_domains =
                        (if changed \<and> length updated_domains = 0
                         then updated_domains @ [''DNS configuration'']
                         else updated_domains);
                      w = (if length updated_domains > 0
                           then os_system ''service nsd restart'' w else w);
                      w = w\<lparr>files := write_opendkim_tables zonefiles env (files w)\<rparr>;
                      w = os_system ''service opendkim restart'' w
                  in (Inr (if length updated_domains = 0 then []
                           else ''updated: '' @ join '','' updated_domains @ [NL]), w)))"

subsection \<open>The parts of a zone file\<close>

text \<open>
  The text of the template before the serial token and after the serial line, the line
  added for a record, and the strings that cannot be mistaken for the serial line or the
  serial token.
\<close>

definition zone_head :: "string \<Rightarrow> string \<Rightarrow> string" where
  "zone_head domain primary_domain =
     [NL] @ ''$ORIGIN '' @ domain @
     ''.    ; default zone domain'' @ [NL] @
     ''$TTL 86400           ; default time to live'' @ [NL, NL] @
     ''@ IN SOA ns1.'' @ primary_domain @ ''. hostmaster.'' @ primary_domain @
     ''. ('' @ [NL] @ ''           ''"

definition zone_rest :: string where
  "zone_rest =
     [NL] @ ''           28800       ; Refresh'' @ [NL] @
     ''           7200        ; Retry'' @ [NL] @
     ''           864000      ; Expire'' @ [NL] @
     ''           86400       ; Min TTL'' @ [NL] @
     ''           )'' @ [NL]"

definition record_line :: "rr \<Rightarrow> string" where
  "record_line r = add_record [] r"

text \<open>A non-empty string of decimal digits, as \<open>time.strftime("%Y%m%d00")\<close> gives.\<close>

definition all_digits :: "string \<Rightarrow> bool" where
  "all_digits s \<longleftrightarrow> s \<noteq> [] \<and> list_all is_digit s"

text \<open>
  A clean string contains neither the serial token, nor the words of the serial line, nor
  a carriage return.
\<close>

definition clean :: "string \<Rightarrow> bool" where
  "clean s \<longleftrightarrow>
     \<not> sublist ''__SERIAL__'' s \<and> \<not> sublist ''serial number'' s \<and> CR \<notin> set s"

definition clean_record :: "rr \<Rightarrow> bool" where
  "clean_record r =
     (case r of (subdomain, querytype, v) \<Rightarrow>
        (case subdomain of None \<Rightarrow> True | Some s \<Rightarrow> clean s) \<and> clean querytype \<and> clean v)"

text \<open>
  A zone file is settled when \<open>write_nsd_zone\<close> finds nothing to write: the records can
  be built and the file on disk is the rendered zone up to its serial.
\<close>

definition settled :: "env \<Rightarrow> files \<Rightarrow> string \<times> string \<Rightarrow> bool" where
  "settled env fs z =
     (case z of (domain, zonefile) \<Rightarrow>
        (case build_zone domain env fs of
           Inl e \<Rightarrow> False
         | Inr records \<Rightarrow>
             choose_serial (render_zone domain records env) []
               (fs (''/etc/nsd/zones/'' @ zonefile)) = None))"

text \<open>The selector and the value of the DKIM file, if it is there and parses, are clean.\<close>

definition dkim_clean :: "env \<Rightarrow> files \<Rightarrow> bool" where
  "dkim_clean env fs =
     (case fs (path_join (STORAGE_ROOT env) ''mail/dkim/mail.txt'') of
        None \<Rightarrow> True
      | Some text \<Rightarrow>
          (case dkim_match text of
             None \<Rightarrow> True
           | Some (selector, v) \<Rightarrow> clean selector \<and> clean v))"

subsection \<open>Concrete inputs\<close>

definition env0 :: env where
  "env0 = \<lparr>PUBLIC_HOSTNAME = ''mail.example.com'', PUBLIC_IP = ''203.0.113.5'', STORAGE_ROOT = ''/home/user-data''\<rparr>"
definition world0 :: world where
  "world0 = \<lparr>files = Map.empty, commands = [], requests = [], stdout = []\<rparr>"
definition api_ok :: api where "api_ok url data = Inr ''ok''"
definition api_down :: api where "api_down url data = Inl NotifierError"
definition dkim_text :: string where
  "dkim_text = ''mail._domainkey'' @ [TAB] @ ''IN'' @ [TAB] @ ''TXT'' @ [TAB] @ ''( '' @ [DQ] @
     ''v=DKIM1; k=rsa; '' @ [DQ, NL, TAB] @ ''  '' @ [DQ] @ ''p=MIGfMA0GCSqGSIb3DQEBAQUAA4GNADCB'' @ [DQ] @
     '' )  ; ----- DKIM key mail for mail.example.com'' @ [NL]"
definition dkim_files :: files where
  "dkim_files = [''/home/user-data/mail/dkim/mail.txt'' \<mapsto> dkim_text]"

definition key_files :: files where
  "key_files = [''/home/user-data/mail/dkim/mail.private'' \<mapsto> ''KEY'']"

definition unterminated_dkim_text :: string where
  "unterminated_dkim_text = ''mail._domainkey IN TXT ( '' @ [DQ] @
     ''v=DKIM1; k=rsa; p=MIGfMA0GCSqGSIb3DQEBAQUAA4GNADCB'' @ [DQ] @ '' )'' @ [NL]"

definition bad_dkim_world :: world where
  "bad_dkim_world =
     world0\<lparr>files := [''/home/user-data/mail/dkim/mail.txt'' \<mapsto> unterminated_dkim_text]\<rparr>"

definition test_env :: env where
  "test_env = \<lparr>PUBLIC_HOSTNAME = ''box.justtesting.email'', PUBLIC_IP = ''203.0.113.5'',
     STORAGE_ROOT = ''/home/user-data''\<rparr>"

definition test_zone :: string where
  "test_zone = replace_str ''__SERIAL__'' ''2024060100''
     (render_zone ''box.justtesting.email'' (base_records test_env @ ns_records test_env) test_env)"

definition test_files :: files where
  "test_files = [''/etc/nsd/zones/box.justtesting.email.txt'' \<mapsto> test_zone]"

definition notified_world :: world where
  "notified_world = \<lparr>files = test_files, commands = [],
     requests = [(''https://api.dns4e.com/v7/box.justtesting.email/txt'',
                  ''record=%22v%3Dspf1%20mx%20-all%22'')],
     stdout = [''Updating DNS for box.justtesting.email/TXT...'']\<rparr>"

definition mirror_files :: files where
  "mirror_files = [''/etc/nsd/zones/example.org.txt'' \<mapsto>
     replace_str ''__SERIAL__'' ''2024060100''
       (render_zone ''example.org'' (base_records test_env) test_env)]"

definition late_notified_world :: world where
  "late_notified_world =
     \<lparr>files = mirror_files(''/etc/nsd/zones/box.justtesting.email.txt'' \<mapsto> test_zone),
      commands = [],
      requests = [(''https://api.dns4e.com/v7/box.justtesting.email/txt'',
                   ''record=%22v%3Dspf1%20mx%20-all%22'')],
      stdout = [''Updating DNS for box.justtesting.email/TXT...'']\<rparr>"

definition initial_world :: world where
  "initial_world = \<lparr>files = [''/etc/nsd/nsd.conf'' \<mapsto> [],
       ''/home/user-data/mail/dkim/mail.txt'' \<mapsto> dkim_text],
     commands = [], requests = [], stdout = []\<rparr>"

definition two_domains :: "string list" where
  "two_domains = [''mail.example.com'', ''example.org'']"

definition after_first_run :: world where
  "after_first_run = snd (do_dns_update env0 two_domains ''2024060100'' api_ok initial_world)"

definition cr_env :: env where
  "cr_env = \<lparr>PUBLIC_HOSTNAME = ''mail.example.com'', PUBLIC_IP = ''203.0.113.5'' @ [CR],
     STORAGE_ROOT = ''/home/user-data''\<rparr>"

definition old_env :: env where
  "old_env = \<lparr>PUBLIC_HOSTNAME = ''mail.example.com'', PUBLIC_IP = ''203.0.113.4'',
     STORAGE_ROOT = ''/home/user-data''\<rparr>"

definition counter_zone :: string where
  "counter_zone = replace_str ''__SERIAL__'' ''42''
     (render_zone ''example.org'' (base_records old_env) old_env)"

definition padded_zone :: string where
  "padded_zone = replace_str ''__SERIAL__'' ''02024060200''
     (render_zone ''example.org'' (base_records old_env) old_env)"

section \<open>Properties\<close>

subsection \<open>The record builder\<close>

lemma dkim_path: "path_join ''/home/user-data'' ''mail/dkim/mail.txt'' = ''/home/user-data/mail/dkim/mail.txt''"
  by (simp add: path_join_def suffix_def)



text \<open>
  Claim C10.  When the DKIM file exists and parses, the DKIM TXT record appended by
  \<open>build_zone\<close> has the selector and the value read from that one file, whatever the
  domain being built is.
\<close>

theorem dkim_record_shared:
  "fs (path_join (STORAGE_ROOT env) ''mail/dkim/mail.txt'') = Some text \<Longrightarrow>
   dkim_match text = Some (selector, v) \<Longrightarrow>
   build_zone domain env fs = Inr
     (base_records env @ (if domain = PUBLIC_HOSTNAME env then ns_records env else []) @
      [(Some selector, ''TXT'', v),
       (Some ''_adsp._domainkey'', ''TXT'', [DQ] @ ''dkim=all'' @ [DQ]),
       (Some ''_dmarc'', ''TXT'', [DQ] @ ''v=DMARC1; p=quarantine'' @ [DQ])])"
  by (simp add: build_zone_def policy_records_def Let_def)

lemma dkim_text_match:
  "dkim_match dkim_text = Some (''mail._domainkey'',
     ''( '' @ [DQ] @ ''v=DKIM1; k=rsa; '' @ [DQ, NL, TAB] @ ''  '' @ [DQ] @
     ''p=MIGfMA0GCSqGSIb3DQEBAQUAA4GNADCB'' @ [DQ] @ '' )'')"
  by (simp add: dkim_match_def dkim_text_def is_space_def Let_def semicolon_next_def)

theorem dkim_record_shared_witness:
  "build_zone ''mail.example.com'' env0 dkim_files = Inr
     (base_records env0 @ ns_records env0 @
      [(Some ''mail._domainkey'', ''TXT'',
         ''( '' @ [DQ] @ ''v=DKIM1; k=rsa; '' @ [DQ, NL, TAB] @ ''  '' @ [DQ] @
         ''p=MIGfMA0GCSqGSIb3DQEBAQUAA4GNADCB'' @ [DQ] @ '' )''),
       (Some ''_adsp._domainkey'', ''TXT'', [DQ] @ ''dkim=all'' @ [DQ]),
       (Some ''_dmarc'', ''TXT'', [DQ] @ ''v=DMARC1; p=quarantine'' @ [DQ])]) \<and>
   build_zone ''example.org'' env0 dkim_files = Inr
     (base_records env0 @
      [(Some ''mail._domainkey'', ''TXT'',
         ''( '' @ [DQ] @ ''v=DKIM1; k=rsa; '' @ [DQ, NL, TAB] @ ''  '' @ [DQ] @
         ''p=MIGfMA0GCSqGSIb3DQEBAQUAA4GNADCB'' @ [DQ] @ '' )''),
       (Some ''_adsp._domainkey'', ''TXT'', [DQ] @ ''dkim=all'' @ [DQ]),
       (Some ''_dmarc'', ''TXT'', [DQ] @ ''v=DMARC1; p=quarantine'' @ [DQ])])"
  using dkim_record_shared [of dkim_files env0 dkim_text _ _ "''mail.example.com''", OF _ dkim_text_match]
    dkim_record_shared [of dkim_files env0 dkim_text _ _ "''example.org''", OF _ dkim_text_match]
  by (simp add: env0_def dkim_files_def dkim_path)

lemma key_path: "path_join ''/home/user-data'' ''mail/dkim/mail.private'' = ''/home/user-data/mail/dkim/mail.private''"
  by (simp add: path_join_def suffix_def)

subsection \<open>DKIM gating\<close>

text \<open>
  Claim C6, as stated, fails: the tables are gated on the private key \<open>mail.private\<close>, not
  on the public record \<open>mail.txt\<close>.  With \<open>mail.txt\<close> absent and \<open>mail.private\<close> present
  both tables are written.
\<close>

theorem tables_gate_counterexample:
  "key_files (path_join (STORAGE_ROOT env0) ''mail/dkim/mail.txt'') = None \<and>
   key_files ''/etc/opendkim/KeyTable'' = None \<and>
   write_opendkim_tables (zonefiles_of [''mail.example.com'']) env0 key_files ''/etc/opendkim/KeyTable'' =
     Some ''mail.example.com mail.example.com:mail:/home/user-data/mail/dkim/mail.private'' \<and>
   write_opendkim_tables (zonefiles_of [''mail.example.com'']) env0 key_files ''/etc/opendkim/SigningTable'' =
     Some ''*@mail.example.com mail.example.com''"
  by (simp add: key_files_def env0_def dkim_path key_path write_opendkim_tables_def zonefiles_of_def
      quote_def quote_char_def always_safe_def Let_def)

text \<open>
  Claim C6, amended.  When \<open>mail.txt\<close> is absent the only TXT record of a domain is the
  SPF record on the root (no DKIM, ADSP or DMARC record); when \<open>mail.private\<close> is absent
  \<open>write_opendkim_tables\<close> leaves every file as it is.
\<close>

theorem dkim_gating:
  "(fs (path_join (STORAGE_ROOT env) ''mail/dkim/mail.txt'') = None \<longrightarrow>
      (\<exists>records. build_zone domain env fs = Inr records \<and>
         (\<forall>(subdomain, querytype, v) \<in> set records.
            querytype = ''TXT'' \<longrightarrow> subdomain = None \<and> v = [DQ] @ ''v=spf1 mx -all'' @ [DQ]))) \<and>
   (fs (path_join (STORAGE_ROOT env) ''mail/dkim/mail.private'') = None \<longrightarrow>
      write_opendkim_tables zonefiles env fs = fs)"
  by (simp add: build_zone_def base_records_def ns_records_def write_opendkim_tables_def Let_def)

theorem dkim_gating_witness:
  "(\<exists>records. build_zone ''mail.example.com'' env0 Map.empty = Inr records \<and>
      (\<forall>(subdomain, querytype, v) \<in> set records.
         querytype = ''TXT'' \<longrightarrow> subdomain = None \<and> v = [DQ] @ ''v=spf1 mx -all'' @ [DQ])) \<and>
   write_opendkim_tables (zonefiles_of [''mail.example.com'']) env0 Map.empty = Map.empty"
  using dkim_gating [of Map.empty env0 "''mail.example.com''" "zonefiles_of [''mail.example.com'']"]
  by simp

subsection \<open>Zone file names\<close>

text \<open>
  Claim C9, as stated, fails: \<open>quote\<close> never escapes the unreserved characters, so the
  dots of a domain stay as they are.
\<close>

theorem zonefile_name_counterexample:
  "zonefiles_of [''example.com''] = [(''example.com'', ''example.com.txt'')] \<and>
   snd (hd (zonefiles_of [''example.com''])) \<noteq> ''example%2Ecom.txt''"
  by (simp add: zonefiles_of_def quote_def quote_char_def always_safe_def)

text \<open>
  Claim C9, amended.  The zone file name is \<open>quote(domain, safe='')\<close> followed by
  \<open>.txt\<close>: letters, digits and \<open>_.-~\<close> are kept, every other character is replaced by the
  \<open>%XX\<close> escapes of its UTF-8 bytes.
\<close>

theorem zonefile_name:
  "zonefiles_of domains = map (\<lambda>domain. (domain, quote domain [] @ ''.txt'')) domains \<and>
   (c \<in> set ''ABCDEFGHIJKLMNOPQRSTUVWXYZabcdefghijklmnopqrstuvwxyz0123456789_.-~'' \<longrightarrow>
      quote (c # s) [] = c # quote s []) \<and>
   (c \<notin> set ''ABCDEFGHIJKLMNOPQRSTUVWXYZabcdefghijklmnopqrstuvwxyz0123456789_.-~'' \<longrightarrow>
      quote (c # s) [] = concat (map pct (utf8_bytes c)) @ quote s [])"
  by (simp add: zonefiles_of_def quote_def quote_char_def always_safe_def)

theorem zonefile_name_witness:
  "quote ''.com'' [] = CHR ''.'' # quote ''com'' [] \<and>
   quote ''/x'' [] = ''%2F'' @ quote ''x'' []"
  using zonefile_name [of "[]" "CHR ''.''" "''com''"] zonefile_name [of "[]" "CHR ''/''" "''x''"]
  by (simp add: pct_def utf8_bytes_def hex_digit_def)

subsection \<open>The daemon configuration\<close>

lemma write_nsd_zone_new:
  "fs zonefile = None \<Longrightarrow>
   write_nsd_zone domain zonefile records env now fs =
     (True, fs(zonefile \<mapsto>
        universal_newlines (replace_str ''__SERIAL__'' now (render_zone domain records env))))"
  by (simp add: write_nsd_zone_def choose_serial_def)

text \<open>
  Claim C7.  \<open>write_nsd_conf\<close> opens \<open>/etc/nsd/nsd.conf\<close> for reading without checking
  that it exists, unlike \<open>write_nsd_zone\<close>; on a first run without that file it raises,
  and so does \<open>do_dns_update\<close>.
\<close>

theorem nsd_conf_first_run:
  "write_nsd_conf (zonefiles_of [''mail.example.com'']) Map.empty = Inl FileNotFoundError \<and>
   fst (do_dns_update env0 [''mail.example.com''] ''2024060100'' api_ok world0) =
     Inl FileNotFoundError"
  by (simp add: write_nsd_conf_def do_dns_update_def zonefiles_of_def quote_def quote_char_def
      always_safe_def update_zone_def build_zone_def env0_def world0_def dkim_path
      write_nsd_zone_new justtestingdotemail_def suffix_def Let_def)

subsection \<open>DKIM parse failure\<close>

lemma unterminated_match: "dkim_match unterminated_dkim_text = None"
  by (simp add: dkim_match_def unterminated_dkim_text_def is_space_def semicolon_next_def)

text \<open>
  Whenever the DKIM file exists and its text does not match the pattern, \<open>build_zone\<close>
  raises and \<open>do_dns_update\<close> stops at its first domain, with nothing written.
\<close>

lemma dkim_unmatched_raises:
  "files w (path_join (STORAGE_ROOT env) ''mail/dkim/mail.txt'') = Some t \<Longrightarrow>
   dkim_match t = None \<Longrightarrow> domains \<noteq> [] \<Longrightarrow>
   build_zone domain env (files w) = Inl AttributeError \<and>
   do_dns_update env domains now call w = (Inl AttributeError, w)"
  by (cases domains)
     (simp_all add: build_zone_def do_dns_update_def zonefiles_of_def update_zone_def Let_def)

text \<open>
  Claim C4.  \<open>build_zone\<close> uses the match of the DKIM pattern without checking it, where
  \<open>write_nsd_zone\<close> guards its match with \<open>if m:\<close>.  At a DKIM file whose record lacks the
  closing semicolon the match is \<open>None\<close>, \<open>m.group(1)\<close> raises \<open>AttributeError\<close>, the
  domain gets no records at all, and the whole run is aborted with that error before
  anything is written, for every domain.
\<close>

theorem dkim_parse_failure_aborts:
  "dkim_match unterminated_dkim_text = None \<and>
   build_zone ''example.org'' env0 (files bad_dkim_world) = Inl AttributeError \<and>
   do_dns_update env0 [''mail.example.com'', ''example.org''] ''2024060100'' api_ok
     bad_dkim_world = (Inl AttributeError, bad_dkim_world)"
  by (simp add: build_zone_def do_dns_update_def zonefiles_of_def update_zone_def Let_def
      bad_dkim_world_def world0_def env0_def dkim_path unterminated_match)

subsection \<open>The notifier leaves the files alone\<close>

lemma notify_records_files: "files (snd (notify_records call domain records w)) = files w"
  by (induction call domain records w rule: notify_records.induct)
     (auto simp: Let_def split: sum.splits)

lemma justtestingdotemail_files: "files (snd (justtestingdotemail call domain records w)) = files w"
  by (simp add: justtestingdotemail_def notify_records_files)

lemma write_zones_error:
  "update_zone env now call domain zonefile w = (Inl e, w') \<Longrightarrow>
   write_zones env now call ((domain, zonefile) # rest) updated w = (Inl e, w')"
  by simp

subsection \<open>Replacing and searching in strings\<close>

lemma sublist_sep:
  assumes "sep \<notin> set old"
  shows "sublist old (a @ sep # b) \<longleftrightarrow> sublist old a \<or> sublist old b"
proof
  assume "sublist old (a @ sep # b)"
  then consider "sublist old a" | "sublist old (sep # b)"
    | xs1 xs2 where "old = xs1 @ xs2" "suffix xs1 a" "prefix xs2 (sep # b)"
    by (auto simp: sublist_append)
  then show "sublist old a \<or> sublist old b"
  proof cases
    case 1 then show ?thesis by simp
  next
    case 2
    then show ?thesis using assms
      by (cases old) (auto simp: sublist_Cons_right)
  next
    case 3
    then show ?thesis using assms
      by (cases xs2) auto
  qed
next
  assume "sublist old a \<or> sublist old b"
  then show "sublist old (a @ sep # b)"
    by (auto simp: sublist_append sublist_Cons_right)
qed

lemma not_sublist_char: "c \<in> set old \<Longrightarrow> c \<notin> set a \<Longrightarrow> \<not> sublist old a"
  using set_mono_sublist by fastforce

lemma replace_str_step:
  "old \<noteq> [] \<Longrightarrow> \<not> prefix old (c # cs) \<Longrightarrow> replace_str old new (c # cs) = c # replace_str old new cs"
  by simp

lemma replace_str_hit:
  "old \<noteq> [] \<Longrightarrow> replace_str old new (old @ rest) = new @ replace_str old new rest"
  by (cases old) simp_all

lemma replace_str_pass:
  "old \<noteq> [] \<Longrightarrow> sep \<notin> set old \<Longrightarrow> \<not> sublist old a \<Longrightarrow>
   replace_str old new (a @ sep # rest) = a @ sep # replace_str old new rest"
proof (induction a)
  case Nil
  then show ?case by (cases old) auto
next
  case (Cons c a)
  have np: "\<not> prefix old ((c # a) @ sep # rest)"
  proof
    assume "prefix old ((c # a) @ sep # rest)"
    then have "sublist old ((c # a) @ sep # rest)" by (rule prefix_imp_sublist)
    then have "prefix old ((c # a) @ sep # rest) \<and> \<not> sublist old (c # a)"
      using Cons.prems \<open>prefix old ((c # a) @ sep # rest)\<close> by simp
    then obtain zs where z: "(c # a) @ sep # rest = old @ zs" by (auto simp: prefix_def)
    show False
    proof (cases "length old \<le> length (c # a)")
      case True
      have "old = take (length old) (old @ zs)" by simp
      also have "\<dots> = take (length old) ((c # a) @ sep # rest)" using z by simp
      also have "\<dots> = take (length old) (c # a)" using True by (simp only: take_append) simp
      finally have "prefix old (c # a)" by (metis take_is_prefix)
      with Cons.prems show False by auto
    next
      case False
      then have l: "length (c # a) < length old" by simp
      have "sep = ((c # a) @ sep # rest) ! length (c # a)" by (simp only: nth_append_length)
      also have "\<dots> = (old @ zs) ! length (c # a)" using z by simp
      also have "\<dots> = old ! length (c # a)" using l by (simp only: nth_append if_True)
      finally have "sep \<in> set old" using l by (metis nth_mem)
      with Cons.prems show False by simp
    qed
  qed
  from Cons.prems have "\<not> sublist old a" by (auto simp: sublist_Cons_right)
  with Cons have "replace_str old new (a @ sep # rest) = a @ sep # replace_str old new rest" by simp
  with np Cons.prems show ?case by simp
qed

lemma replace_str_none:
  "old \<noteq> [] \<Longrightarrow> \<not> sublist old a \<Longrightarrow> replace_str old new a = a"
  by (induction a) (auto simp: sublist_Cons_right)

subsection \<open>Finding the serial in a rendered zone\<close>

lemma zone_template_split:
  "zone_template d h = zone_head d h @ ''__SERIAL__'' @ ''     ; serial number'' @ zone_rest"
  by (simp add: zone_template_def zone_head_def zone_rest_def)

lemma add_record_line: "add_record z r = z @ record_line r"
  by (auto simp: add_record_def record_line_def split: prod.splits option.splits)

lemma render_zone_lines:
  "foldl add_record z rs = z @ concat (map record_line rs)"
  by (induction rs arbitrary: z) (simp_all add: add_record_line)

lemma search_skip: "\<not> is_digit c \<Longrightarrow> search_serial (c # rest) = search_serial rest"
  by (simp add: match_serial_def)

lemma prefix_stop:
  assumes "prefix m (b @ sep # rest)" "sep \<notin> set m"
  shows "prefix m b"
proof -
  from assms(1) consider "prefix m b" | us where "m = b @ us" "prefix us (sep # rest)"
    by (auto simp: prefix_append)
  then show ?thesis
  proof cases
    case 1
    then show ?thesis .
  next
    case 2
    with assms(2) have "us = []" by (cases us) auto
    with 2 show ?thesis by simp
  qed
qed

text \<open>A match is a prefix of the text, ends in the words of the serial line, and is made
  of digits, white space, a semicolon and the letters of these words.\<close>

lemma match_serial_shape:
  assumes "match_serial t = Some (m0, e)"
  shows "prefix m0 t" and "sublist ''serial number'' m0"
    and "\<forall>c \<in> set m0. is_digit c \<or> is_space c \<or> c \<in> set ''; serial number''"
proof -
  define ds where "ds = takeWhile is_digit t"
  define r1 where "r1 = dropWhile is_digit t"
  define w1 where "w1 = takeWhile is_space r1"
  define r2 where "r2 = dropWhile is_space r1"
  from assms obtain r3 where r2: "r2 = CHR '';'' # r3"
    and p: "prefix ''serial number'' (dropWhile is_space r3)"
    and m: "m0 = ds @ w1 @ '';'' @ takeWhile is_space r3 @ ''serial number''"
    unfolding match_serial_def Let_def ds_def [symmetric] r1_def [symmetric]
      w1_def [symmetric] r2_def [symmetric]
    by (cases r2) (auto split: if_splits)
  define w2 where "w2 = takeWhile is_space r3"
  from p obtain z where z: "dropWhile is_space r3 = ''serial number'' @ z"
    by (auto simp: prefix_def)
  have "t = ds @ r1" by (simp add: ds_def r1_def)
  also have "r1 = w1 @ r2" by (simp add: w1_def r2_def)
  also have "r2 = CHR '';'' # (w2 @ dropWhile is_space r3)"
    by (simp add: r2 w2_def)
  finally have t: "t = m0 @ z" by (simp add: m z w2_def)
  then show "prefix m0 t" by simp
  have "m0 = (ds @ w1 @ '';'' @ w2) @ ''serial number'' @ []" by (simp add: m w2_def)
  then show "sublist ''serial number'' m0" by (simp only: sublist_appendI)
  have "\<forall>c \<in> set ds. is_digit c" unfolding ds_def by (auto dest: set_takeWhileD)
  moreover have "\<forall>c \<in> set w1. is_space c" unfolding w1_def by (auto dest: set_takeWhileD)
  moreover have "\<forall>c \<in> set w2. is_space c" unfolding w2_def by (auto dest: set_takeWhileD)
  ultimately show "\<forall>c \<in> set m0. is_digit c \<or> is_space c \<or> c \<in> set ''; serial number''"
    unfolding m w2_def [symmetric] by auto
qed

lemma match_serial_stop:
  assumes "\<not> sublist ''serial number'' b"
    and "\<not> is_digit sep" "\<not> is_space sep" "sep \<notin> set ''; serial number''"
  shows "match_serial (b @ sep # rest) = None"
proof (cases "match_serial (b @ sep # rest)")
  case None
  then show ?thesis .
next
  case (Some r)
  obtain m0 e where r: "r = (m0, e)" by (cases r)
  note s = match_serial_shape [OF Some [unfolded r]]
  from s(3) assms(2-4) have "sep \<notin> set m0" by blast
  with s(1) have "prefix m0 b" by (rule prefix_stop)
  then have "sublist m0 b" by (rule prefix_imp_sublist)
  with s(2) have "sublist ''serial number'' b" by (rule sublist_order.order_trans)
  with assms(1) show ?thesis by simp
qed

lemma search_pass:
  "\<not> sublist ''serial number'' a \<Longrightarrow> \<not> is_digit sep \<Longrightarrow> \<not> is_space sep \<Longrightarrow>
   sep \<notin> set ''; serial number'' \<Longrightarrow> search_serial (a @ sep # rest) = search_serial rest"
proof (induction a)
  case Nil
  then show ?case by (simp add: match_serial_def)
next
  case (Cons c a)
  from Cons.prems have "match_serial ((c # a) @ sep # rest) = None"
    by (rule match_serial_stop)
  moreover from Cons.prems(1) have "\<not> sublist ''serial number'' a"
    by (auto simp: sublist_Cons_right)
  ultimately show ?case using Cons by simp
qed

lemma match_serial_line:
  assumes "all_digits serial"
  shows "match_serial (serial @ ''     ; serial number'' @ rest) =
         Some (serial @ ''     ; serial number'', serial)"
proof -
  from assms have d: "\<forall>c\<in>set serial. is_digit c" and n: "serial \<noteq> []"
    by (auto simp: all_digits_def list_all_iff)
  have t: "takeWhile is_digit (serial @ ''     ; serial number'' @ rest) = serial"
    using d by (simp add: takeWhile_append2 is_digit_def)
  have dr: "dropWhile is_digit (serial @ ''     ; serial number'' @ rest) =
            ''     ; serial number'' @ rest"
    using d by (simp add: dropWhile_append2 is_digit_def)
  show ?thesis
    unfolding match_serial_def Let_def t dr using n
    by (simp add: is_space_def)
qed

lemma search_serial_line:
  assumes "all_digits serial"
  shows "search_serial (serial @ ''     ; serial number'' @ rest) =
         Some (serial @ ''     ; serial number'', serial)"
proof -
  from assms obtain c cs where s: "serial = c # cs"
    by (cases serial) (auto simp: all_digits_def)
  have "search_serial ((c # cs) @ ''     ; serial number'' @ rest) =
        Some ((c # cs) @ ''     ; serial number'', c # cs)"
    using match_serial_line [OF assms, of rest] unfolding s
    by (simp only: append_Cons search_serial.simps option.case)
  then show ?thesis by (simp add: s)
qed

lemma search_head:
  assumes "\<not> sublist ''serial number'' d" "\<not> sublist ''serial number'' h"
  shows "search_serial (zone_head d h @ X) = search_serial X"
  unfolding zone_head_def
  using assms
  by (simp add: search_pass [where sep = "CHR ''.''"] match_serial_def is_digit_def is_space_def)

subsection \<open>Replacing in a rendered zone\<close>

lemma replace_head_token:
  assumes "\<not> sublist ''__SERIAL__'' d" "\<not> sublist ''__SERIAL__'' h"
  shows "replace_str ''__SERIAL__'' new (zone_head d h @ X) =
         zone_head d h @ replace_str ''__SERIAL__'' new X"
  unfolding zone_head_def using assms
  by (simp add: replace_str_pass [where sep = "CHR ''.''" and old = "''__SERIAL__''"])

lemma serial_line_set:
  "all_digits serial \<Longrightarrow> \<not> is_digit c \<Longrightarrow> c \<notin> set ''     ; serial number'' \<Longrightarrow>
   c \<notin> set (serial @ ''     ; serial number'')"
  by (auto simp: all_digits_def list_all_iff)

lemma replace_skip_nondigit:
  assumes "all_digits serial" "\<not> is_digit c"
  shows "replace_str (serial @ ''     ; serial number'') new (c # cs) =
         c # replace_str (serial @ ''     ; serial number'') new cs"
proof -
  from assms have "\<not> prefix (serial @ ''     ; serial number'') (c # cs)"
    by (cases serial) (auto simp: all_digits_def)
  then show ?thesis by simp
qed

lemma serial_line_words: "sublist ''serial number'' (serial @ ''     ; serial number'')"
proof -
  have "serial @ ''     ; serial number'' = (serial @ ''     ; '') @ ''serial number'' @ []"
    by simp
  then show ?thesis by (simp only: sublist_appendI)
qed

lemma replace_pass_dot:
  assumes "all_digits serial" "\<not> sublist ''serial number'' a"
  shows "replace_str (serial @ ''     ; serial number'') new (a @ CHR ''.'' # rest) =
         a @ CHR ''.'' # replace_str (serial @ ''     ; serial number'') new rest"
proof (rule replace_str_pass)
  show "serial @ ''     ; serial number'' \<noteq> []" by simp
  show "CHR ''.'' \<notin> set (serial @ ''     ; serial number'')"
    using assms by (intro serial_line_set) (simp_all add: is_digit_def)
  show "\<not> sublist (serial @ ''     ; serial number'') a"
    using assms(2) serial_line_words sublist_order.order_trans by blast
qed

lemma replace_pass_ttl:
  assumes "all_digits serial"
  shows "replace_str (serial @ ''     ; serial number'') new (''86400           ; d'' @ rest) =
         ''86400           ; d'' @ replace_str (serial @ ''     ; serial number'') new rest"
proof -
  have "replace_str (serial @ ''     ; serial number'') new
          (''86400           ; '' @ CHR ''d'' # rest) =
        ''86400           ; '' @ CHR ''d'' # replace_str (serial @ ''     ; serial number'') new rest"
  proof (rule replace_str_pass)
    show "serial @ ''     ; serial number'' \<noteq> []" by simp
    show "CHR ''d'' \<notin> set (serial @ ''     ; serial number'')"
      using assms by (intro serial_line_set) (simp_all add: is_digit_def)
    show "\<not> sublist (serial @ ''     ; serial number'') ''86400           ; ''"
      by (intro not_sublist_char [of "CHR ''s''"]) simp_all
  qed
  then show ?thesis by simp
qed

lemma replace_pass_ns1:
  assumes "all_digits serial"
  shows "replace_str (serial @ ''     ; serial number'') new (''1.'' @ rest) =
         ''1.'' @ replace_str (serial @ ''     ; serial number'') new rest"
proof -
  have "replace_str (serial @ ''     ; serial number'') new (''1'' @ CHR ''.'' # rest) =
        ''1'' @ CHR ''.'' # replace_str (serial @ ''     ; serial number'') new rest"
    using assms by (intro replace_pass_dot) (simp_all add: sublist_code)
  then show ?thesis by simp
qed

lemma replace_head_serial:
  assumes "\<not> sublist ''serial number'' d" "\<not> sublist ''serial number'' h"
    and "all_digits serial"
  shows "replace_str (serial @ ''     ; serial number'') new (zone_head d h @ X) =
         zone_head d h @ replace_str (serial @ ''     ; serial number'') new X"
  unfolding zone_head_def using assms
  by (simp del: replace_str.simps
      add: replace_skip_nondigit replace_pass_dot replace_pass_ttl [simplified]
        replace_pass_ns1 [simplified] is_digit_def)

lemma no_occurrence_lines:
  assumes "NL \<notin> set old" "TAB \<notin> set old" "\<not> sublist old ''IN''"
    and "\<forall>(subdomain, querytype, v) \<in> set rs.
           (\<forall>s. subdomain = Some s \<longrightarrow> \<not> sublist old s) \<and>
           \<not> sublist old querytype \<and> \<not> sublist old v"
  shows "\<not> sublist old (concat (map record_line rs))"
  using assms(4)
proof (induction rs)
  case Nil
  from assms(3) have "old \<noteq> []" by auto
  then show ?case by simp
next
  case (Cons r rs)
  obtain subdomain querytype v where r: "r = (subdomain, querytype, v)" by (cases r)
  define s where "s = (case subdomain of None \<Rightarrow> [] | Some s \<Rightarrow> s)"
  from assms(3) have ne: "old \<noteq> []" by auto
  have l: "record_line r = s @ TAB # ''IN'' @ TAB # querytype @ TAB # v @ NL # []"
    by (auto simp: r s_def record_line_def add_record_def split: option.splits)
  from Cons.prems r ne have "\<not> sublist old s" "\<not> sublist old querytype" "\<not> sublist old v"
    by (auto simp: s_def split: option.splits)
  moreover from Cons have "\<not> sublist old (concat (map record_line rs))" by simp
  ultimately have "\<not> sublist old
      (s @ TAB # (''IN'' @ TAB # (querytype @ TAB # (v @ NL # concat (map record_line rs)))))"
    using assms(1-3) by (simp only: sublist_sep not_False_eq_True simp_thms)
  then show ?case by (simp add: l)
qed

subsection \<open>Reading back a zone file that was just written\<close>

lemma not_sublist_sep:
  "sep \<notin> set old \<Longrightarrow> \<not> sublist old a \<Longrightarrow> \<not> sublist old b \<Longrightarrow> \<not> sublist old (a @ sep # b)"
  by (simp add: sublist_sep)

lemma clean_lines:
  assumes "\<forall>r \<in> set rs. clean_record r"
  shows "\<not> sublist ''__SERIAL__'' (zone_rest @ concat (map record_line rs))"
    and "\<not> sublist ''serial number'' (zone_rest @ concat (map record_line rs))"
proof -
  have c: "\<forall>(subdomain, querytype, v) \<in> set rs.
      (\<forall>s. subdomain = Some s \<longrightarrow> \<not> sublist old s) \<and> \<not> sublist old querytype \<and> \<not> sublist old v"
    if "old = ''__SERIAL__'' \<or> old = ''serial number''" for old
    using assms that by (auto simp: clean_record_def clean_def split: option.splits)
  have t: "\<not> sublist ''__SERIAL__'' (concat (map record_line rs))"
    by (rule no_occurrence_lines [OF _ _ _ c]) (simp_all add: sublist_code)
  have n: "\<not> sublist ''serial number'' (concat (map record_line rs))"
    by (rule no_occurrence_lines [OF _ _ _ c]) (simp_all add: sublist_code)
  have z: "zone_rest = butlast zone_rest @ NL # []"
    by (simp add: zone_rest_def)
  have "\<not> sublist ''__SERIAL__'' (butlast zone_rest)"
    by (rule not_sublist_char [of "CHR ''_''"]) (simp_all add: zone_rest_def)
  then have "\<not> sublist ''__SERIAL__'' (butlast zone_rest @ NL # concat (map record_line rs))"
    using t by (intro not_sublist_sep) simp_all
  then show "\<not> sublist ''__SERIAL__'' (zone_rest @ concat (map record_line rs))"
    by (subst z) simp
  have "\<not> sublist ''serial number'' (butlast zone_rest)"
    by (rule not_sublist_char [of "CHR ''u''"]) (simp_all add: zone_rest_def)
  then have "\<not> sublist ''serial number'' (butlast zone_rest @ NL # concat (map record_line rs))"
    using n by (intro not_sublist_sep) simp_all
  then show "\<not> sublist ''serial number'' (zone_rest @ concat (map record_line rs))"
    by (subst z) simp
qed

lemma render_zone_parts:
  "render_zone d rs env =
     zone_head d (PUBLIC_HOSTNAME env) @ ''__SERIAL__'' @ ''     ; serial number'' @
     zone_rest @ concat (map record_line rs)"
  by (simp only: render_zone_def render_zone_lines zone_template_split append_assoc)

lemma written_zone:
  assumes "clean d" "clean (PUBLIC_HOSTNAME env)" "\<forall>r \<in> set rs. clean_record r"
  shows "replace_str ''__SERIAL__'' serial (render_zone d rs env) =
     zone_head d (PUBLIC_HOSTNAME env) @ serial @ ''     ; serial number'' @
     zone_rest @ concat (map record_line rs)"
proof -
  let ?t = "zone_rest @ concat (map record_line rs)"
  have "\<not> sublist ''__SERIAL__'' (''     ; serial number'' @ ?t)"
  proof -
    have "\<not> sublist ''__SERIAL__'' (''     ; serial numbe'' @ CHR ''r'' # ?t)"
      using clean_lines(1) [OF assms(3)]
      by (intro not_sublist_sep) (simp_all add: sublist_code)
    then show ?thesis by simp
  qed
  then have r: "replace_str ''__SERIAL__'' serial (''     ; serial number'' @ ?t) =
                ''     ; serial number'' @ ?t"
    by (intro replace_str_none) simp_all
  have "replace_str ''__SERIAL__'' serial (render_zone d rs env) =
        zone_head d (PUBLIC_HOSTNAME env) @
        replace_str ''__SERIAL__'' serial (''__SERIAL__'' @ (''     ; serial number'' @ ?t))"
    using assms(1,2) unfolding render_zone_parts
    by (intro replace_head_token) (simp_all add: clean_def)
  also have "\<dots> = zone_head d (PUBLIC_HOSTNAME env) @ serial @ ''     ; serial number'' @ ?t"
    by (subst replace_str_hit) (simp_all only: r, simp)
  finally show ?thesis by (simp only: append_assoc)
qed

lemma universal_newlines_id: "CR \<notin> set s \<Longrightarrow> universal_newlines s = s"
  by (induction s rule: universal_newlines.induct) auto

lemma record_line_no_cr: "clean_record r \<Longrightarrow> CR \<notin> set (record_line r)"
  by (auto simp: clean_record_def clean_def record_line_def add_record_def
      split: prod.splits option.splits)

text \<open>The text written for clean names and records has no carriage return.\<close>

lemma written_no_cr:
  assumes "clean d" "clean (PUBLIC_HOSTNAME env)" "\<forall>r \<in> set rs. clean_record r"
    and "all_digits serial"
  shows "universal_newlines (replace_str ''__SERIAL__'' serial (render_zone d rs env)) =
         replace_str ''__SERIAL__'' serial (render_zone d rs env)"
proof -
  from assms(1,2) have c: "CR \<notin> set d" "CR \<notin> set (PUBLIC_HOSTNAME env)"
    unfolding clean_def by blast+
  have h: "CR \<notin> set (zone_head d (PUBLIC_HOSTNAME env))"
    using c by (simp add: zone_head_def)
  have "\<not> is_digit CR" by (simp add: is_digit_def)
  with assms(4) have s: "CR \<notin> set serial"
    unfolding all_digits_def list_all_iff by blast
  have l: "CR \<notin> set (concat (map record_line rs))"
    using assms(3) record_line_no_cr by fastforce
  have z: "CR \<notin> set (''     ; serial number'' @ zone_rest)"
    by (simp add: zone_rest_def)
  have "CR \<notin> set (zone_head d (PUBLIC_HOSTNAME env) @ serial @ ''     ; serial number'' @
     zone_rest @ concat (map record_line rs))"
    using h s l z by (simp only: set_append Un_iff) blast
  then have "universal_newlines (zone_head d (PUBLIC_HOSTNAME env) @ serial @
      ''     ; serial number'' @ zone_rest @ concat (map record_line rs)) =
     zone_head d (PUBLIC_HOSTNAME env) @ serial @ ''     ; serial number'' @ zone_rest @
       concat (map record_line rs)"
    by (rule universal_newlines_id)
  then show ?thesis by (simp only: written_zone [OF assms(1-3)])
qed

lemma read_back:
  assumes "clean d" "clean (PUBLIC_HOSTNAME env)" "\<forall>r \<in> set rs. clean_record r"
    and "all_digits serial"
  shows "search_serial (replace_str ''__SERIAL__'' serial (render_zone d rs env)) =
           Some (serial @ ''     ; serial number'', serial)"
    and "replace_str (serial @ ''     ; serial number'') ''__SERIAL__     ; serial number''
           (replace_str ''__SERIAL__'' serial (render_zone d rs env)) = render_zone d rs env"
proof -
  let ?h = "zone_head d (PUBLIC_HOSTNAME env)"
  let ?t = "zone_rest @ concat (map record_line rs)"
  let ?m = "serial @ ''     ; serial number''"
  from assms have sc: "\<not> sublist ''serial number'' d"
    "\<not> sublist ''serial number'' (PUBLIC_HOSTNAME env)"
    by (simp_all add: clean_def)
  have w: "replace_str ''__SERIAL__'' serial (render_zone d rs env) = ?h @ ?m @ ?t"
    using written_zone [OF assms(1-3)] by simp
  have s: "search_serial (?h @ ?m @ ?t) = Some (?m, serial)"
    using search_serial_line [OF assms(4), of ?t] sc by (simp add: search_head)
  have "\<not> sublist ?m ?t"
    using clean_lines(2) [OF assms(3)] serial_line_words sublist_order.order_trans by blast
  then have t: "replace_str ?m ''__SERIAL__     ; serial number'' ?t = ?t"
    by (intro replace_str_none) simp_all
  have "replace_str ?m ''__SERIAL__     ; serial number'' (?h @ ?m @ ?t) =
        ?h @ replace_str ?m ''__SERIAL__     ; serial number'' (?m @ ?t)"
    using sc assms(4) by (rule replace_head_serial)
  also have "\<dots> = ?h @ ''__SERIAL__     ; serial number'' @ ?t"
    by (subst replace_str_hit) (simp_all only: t, simp)
  also have "\<dots> = render_zone d rs env"
    by (simp add: render_zone_parts)
  finally have e: "replace_str ?m ''__SERIAL__     ; serial number'' (?h @ ?m @ ?t) =
      render_zone d rs env" .
  show "search_serial (replace_str ''__SERIAL__'' serial (render_zone d rs env)) =
           Some (serial @ ''     ; serial number'', serial)"
    by (simp only: w s)
  show "replace_str (serial @ ''     ; serial number'') ''__SERIAL__     ; serial number''
           (replace_str ''__SERIAL__'' serial (render_zone d rs env)) = render_zone d rs env"
    by (simp only: w e)
qed

text \<open>
  Written and read again, the file gives back the rendered zone: \<open>write_nsd_zone\<close> finds
  nothing to write.
\<close>

lemma roundtrip:
  assumes "clean d" "clean (PUBLIC_HOSTNAME env)" "\<forall>r \<in> set rs. clean_record r"
    and "all_digits serial"
  shows "choose_serial (render_zone d rs env) now
           (Some (universal_newlines
              (replace_str ''__SERIAL__'' serial (render_zone d rs env)))) = None"
  by (simp only: written_no_cr [OF assms] choose_serial_def read_back [OF assms] option.case
      prod.case Let_def simp_thms if_True)

subsection \<open>\<open>quote\<close> is injective and escapes the slash\<close>

lemma of_char_less_256: "(of_char c :: nat) < 256"
proof -
  have "(of_char c :: nat) mod 256 < 256" by simp
  then show ?thesis by (simp only: of_char_mod_256)
qed

lemma hex_digit_mem: "n < 16 \<Longrightarrow> hex_digit n \<in> set ''0123456789ABCDEF''"
  unfolding hex_digit_def by (rule nth_mem) simp

lemma hex_digit_inj: "m < 16 \<Longrightarrow> n < 16 \<Longrightarrow> hex_digit m = hex_digit n \<Longrightarrow> m = n"
proof -
  assume a: "m < 16" "n < 16" "hex_digit m = hex_digit n"
  have d: "distinct ''0123456789ABCDEF''" by simp
  from a have "m < length ''0123456789ABCDEF''" "n < length ''0123456789ABCDEF''" by simp_all
  with d a(3) show "m = n" unfolding hex_digit_def by (simp only: nth_eq_iff_index_eq)
qed

lemma pct_inj: "a < 256 \<Longrightarrow> b < 256 \<Longrightarrow> pct a = pct b \<Longrightarrow> a = b"
proof -
  assume a: "a < 256" "b < 256" "pct a = pct b"
  then have l: "a div 16 < 16" "b div 16 < 16" "a mod 16 < 16" "b mod 16 < 16" by simp_all
  from a(3) have h1: "hex_digit (a div 16) = hex_digit (b div 16)"
    and h2: "hex_digit (a mod 16) = hex_digit (b mod 16)"
    by (simp_all add: pct_def)
  have "a div 16 = b div 16" by (rule hex_digit_inj [OF l(1,2) h1])
  moreover have "a mod 16 = b mod 16" by (rule hex_digit_inj [OF l(3,4) h2])
  ultimately show "a = b" by (metis div_mult_mod_eq)
qed

lemma hex_digit_no_slash: "n < 16 \<Longrightarrow> hex_digit n \<noteq> CHR ''/''"
proof
  assume "n < 16" "hex_digit n = CHR ''/''"
  then have "CHR ''/'' \<in> set ''0123456789ABCDEF''" using hex_digit_mem by metis
  then show False by simp
qed

lemma pct_no_slash: "b < 256 \<Longrightarrow> CHR ''/'' \<notin> set (pct b)"
proof -
  assume "b < 256"
  then have "hex_digit (b div 16) \<noteq> CHR ''/''" "hex_digit (b mod 16) \<noteq> CHR ''/''"
    by (simp_all add: hex_digit_no_slash)
  then show ?thesis by (auto simp: pct_def)
qed

lemma utf8_bytes_bound: "\<forall>b \<in> set (utf8_bytes c). b < 256"
proof -
  define n :: nat where "n = of_char c"
  have "n < 256" unfolding n_def by (rule of_char_less_256)
  then have "n div 64 < 4" by simp
  then show ?thesis unfolding utf8_bytes_def Let_def n_def [symmetric] by auto
qed

lemma quote_char_no_slash: "CHR ''/'' \<notin> set (quote_char [] c)"
  using utf8_bytes_bound [of c]
  by (auto simp: quote_char_def always_safe_def dest: pct_no_slash)

lemma quote_no_slash: "CHR ''/'' \<notin> set (quote s [])"
  by (induction s) (simp_all add: quote_def quote_char_no_slash)

lemma hex_digit_no_cr: "n < 16 \<Longrightarrow> hex_digit n \<noteq> CR"
proof
  assume "n < 16" "hex_digit n = CR"
  then have "CR \<in> set ''0123456789ABCDEF''" using hex_digit_mem by metis
  then show False by simp
qed

lemma pct_no_cr: "b < 256 \<Longrightarrow> CR \<notin> set (pct b)"
proof -
  assume "b < 256"
  then have "hex_digit (b div 16) \<noteq> CR" "hex_digit (b mod 16) \<noteq> CR"
    by (simp_all add: hex_digit_no_cr)
  then show ?thesis by (auto simp: pct_def)
qed

lemma quote_char_no_cr: "CR \<notin> set (quote_char [] c)"
  using utf8_bytes_bound [of c]
  by (auto simp: quote_char_def always_safe_def dest: pct_no_cr)

lemma quote_no_cr: "CR \<notin> set (quote s [])"
  by (induction s) (simp_all add: quote_def quote_char_no_cr)

text \<open>The escapes of a character outside the unreserved set, as a first byte and the rest.\<close>

lemma quote_char_escape:
  "c \<notin> set always_safe \<Longrightarrow>
   \<exists>b r. b < 256 \<and> quote_char [] c = CHR ''%'' # hex_digit (b div 16) # hex_digit (b mod 16) # r \<and>
     (if (of_char c :: nat) < 128 then b = of_char c \<and> r = []
      else b = 192 + of_char c div 64 \<and> r = pct (128 + of_char c mod 64))"
proof -
  assume c: "c \<notin> set always_safe"
  define n :: nat where "n = of_char c"
  have "n < 256" unfolding n_def by (rule of_char_less_256)
  then have "n div 64 < 4" by simp
  then have "\<exists>b r. b < 256 \<and>
     concat (map pct (if n < 128 then [n] else [192 + n div 64, 128 + n mod 64])) =
       CHR ''%'' # hex_digit (b div 16) # hex_digit (b mod 16) # r \<and>
     (if n < 128 then b = n \<and> r = []
      else b = 192 + n div 64 \<and> r = pct (128 + n mod 64))"
    by (cases "n < 128") (simp_all add: pct_def)
  with c show ?thesis
    unfolding quote_char_def utf8_bytes_def Let_def n_def [symmetric] by simp
qed

lemma quote_char_inj:
  assumes "quote_char [] c @ r = quote_char [] c' @ r'"
  shows "c = c' \<and> r = r'"
proof (cases "c \<in> set always_safe")
  case True
  note c = True
  show ?thesis
  proof (cases "c' \<in> set always_safe")
    case True
    with c assms show ?thesis by (simp add: quote_char_def)
  next
    case False
    from quote_char_escape [OF False] obtain b t where
      "quote_char [] c' = CHR ''%'' # hex_digit (b div 16) # hex_digit (b mod 16) # t" by blast
    with c assms have "c = CHR ''%''" by (simp add: quote_char_def)
    with c show ?thesis by (simp add: always_safe_def)
  qed
next
  case False
  note c = False
  show ?thesis
  proof (cases "c' \<in> set always_safe")
    case True
    from quote_char_escape [OF c] obtain b t where
      "quote_char [] c = CHR ''%'' # hex_digit (b div 16) # hex_digit (b mod 16) # t" by blast
    with True assms have "c' = CHR ''%''" by (simp add: quote_char_def)
    with True show ?thesis by (simp add: always_safe_def)
  next
    case False
    from quote_char_escape [OF c] obtain b t where b: "b < 256"
      "quote_char [] c = CHR ''%'' # hex_digit (b div 16) # hex_digit (b mod 16) # t"
      "if (of_char c :: nat) < 128 then b = of_char c \<and> t = []
       else b = 192 + of_char c div 64 \<and> t = pct (128 + of_char c mod 64)" by blast
    from quote_char_escape [OF False] obtain b' t' where b': "b' < 256"
      "quote_char [] c' = CHR ''%'' # hex_digit (b' div 16) # hex_digit (b' mod 16) # t'"
      "if (of_char c' :: nat) < 128 then b' = of_char c' \<and> t' = []
       else b' = 192 + of_char c' div 64 \<and> t' = pct (128 + of_char c' mod 64)" by blast
    from assms b(2) b'(2) have h: "hex_digit (b div 16) = hex_digit (b' div 16)"
      "hex_digit (b mod 16) = hex_digit (b' mod 16)" and t: "t @ r = t' @ r'"
      by simp_all
    from h have "pct b = pct b'" by (simp add: pct_def)
    then have bb: "b = b'" by (rule pct_inj [OF b(1) b'(1)])
    have lc: "(of_char c :: nat) < 256" "(of_char c' :: nat) < 256"
      by (rule of_char_less_256)+
    show ?thesis
    proof (cases "(of_char c :: nat) < 128")
      case True
      with b(3) bb b'(3) lc have "(of_char c' :: nat) < 128"
        by (auto split: if_splits)
      with True b(3) b'(3) bb t show ?thesis by simp
    next
      case False
      with b(3) bb b'(3) lc have n: "\<not> (of_char c' :: nat) < 128"
        by (auto split: if_splits)
      with False b(3) b'(3) bb have d: "(of_char c :: nat) div 64 = of_char c' div 64"
        and tt: "t = pct (128 + of_char c mod 64)" "t' = pct (128 + of_char c' mod 64)"
        by simp_all
      from t tt have "pct (128 + of_char c mod 64) = pct (128 + of_char c' mod 64) \<and> r = r'"
        by (simp add: pct_def)
      then have p: "pct (128 + of_char c mod 64) = pct (128 + of_char c' mod 64)" and r: "r = r'"
        by simp_all
      have "128 + (of_char c :: nat) mod 64 = 128 + of_char c' mod 64"
        by (rule pct_inj [OF _ _ p]) simp_all
      then have "(of_char c :: nat) mod 64 = of_char c' mod 64" by simp
      with d have "(of_char c :: nat) = of_char c'" by (metis div_mult_mod_eq)
      with r show ?thesis by simp
    qed
  qed
qed

lemma quote_inj: "quote s [] = quote t [] \<Longrightarrow> s = t"
proof (induction s arbitrary: t)
  case Nil
  have "quote_char [] c \<noteq> []" for c
    by (simp add: quote_char_def utf8_bytes_def Let_def pct_def)
  with Nil show ?case by (cases t) (auto simp: quote_def)
next
  case (Cons c s)
  have ne: "quote_char [] c \<noteq> []" for c
    by (simp add: quote_char_def utf8_bytes_def Let_def pct_def)
  show ?case
  proof (cases t)
    case Nil
    with Cons.prems ne show ?thesis by (auto simp: quote_def)
  next
    case (Cons c' t')
    with Cons.prems have "quote_char [] c @ quote s [] = quote_char [] c' @ quote t' []"
      by (simp add: quote_def)
    then have "c = c'" "quote s [] = quote t' []" using quote_char_inj by blast+
    with Cons.IH Cons show ?thesis by simp
  qed
qed

lemma zonefiles_distinct: "distinct ds \<Longrightarrow> distinct (map snd (zonefiles_of ds))"
proof -
  assume "distinct ds"
  moreover have "inj_on (\<lambda>d. quote d [] @ ''.txt'') (set ds)"
    by (auto simp: inj_on_def dest: quote_inj)
  ultimately show ?thesis
    by (simp add: zonefiles_of_def comp_def distinct_map)
qed

subsection \<open>Paths, frames and digits\<close>

lemma path_join_suffix: "\<exists>x. path_join a b = x @ b"
  by (auto simp: path_join_def intro: exI [of _ "[]"] exI [of _ "a @ ''/''"])

lemma dkim_file_not_zone:
  "path_join r ''mail/dkim/mail.txt'' \<noteq> ''/etc/nsd/zones/'' @ quote d [] @ ''.txt''"
proof
  assume e: "path_join r ''mail/dkim/mail.txt'' = ''/etc/nsd/zones/'' @ quote d [] @ ''.txt''"
  obtain x where x: "path_join r ''mail/dkim/mail.txt'' = x @ ''mail/dkim/mail.txt''"
    using path_join_suffix by blast
  let ?g = "\<lambda>p. take 5 (dropWhile (\<lambda>c. c \<noteq> CHR ''/'') (rev p))"
  have 1: "?g (x @ ''mail/dkim/mail.txt'') = ''/mikd''" by simp
  have "\<forall>c \<in> set (rev (quote d [])). c \<noteq> CHR ''/''"
    using quote_no_slash [of d] by auto
  then have "dropWhile (\<lambda>c. c \<noteq> CHR ''/'') (rev (quote d []) @ ''/senoz/dsn/cte/'') =
     dropWhile (\<lambda>c. c \<noteq> CHR ''/'') ''/senoz/dsn/cte/''"
    by (intro dropWhile_append2) blast
  then have 2: "?g (''/etc/nsd/zones/'' @ quote d [] @ ''.txt'') = ''/seno''" by simp
  have "x @ ''mail/dkim/mail.txt'' = ''/etc/nsd/zones/'' @ quote d [] @ ''.txt''"
    using trans [OF x [symmetric] e] .
  then have "?g (x @ ''mail/dkim/mail.txt'') = ?g (''/etc/nsd/zones/'' @ quote d [] @ ''.txt'')"
    by (rule arg_cong)
  then have "''/mikd'' = ''/seno''" by (simp only: 1 2)
  then show False by simp
qed

lemma dkim_file_not_conf:
  "path_join r ''mail/dkim/mail.txt'' \<noteq> ''/etc/nsd/nsd.conf''"
  "path_join r ''mail/dkim/mail.txt'' \<noteq> ''/etc/opendkim/KeyTable''"
  "path_join r ''mail/dkim/mail.txt'' \<noteq> ''/etc/opendkim/SigningTable''"
proof -
  obtain x where x: "path_join r ''mail/dkim/mail.txt'' = x @ ''mail/dkim/mail.txt''"
    using path_join_suffix by blast
  have "last (x @ ''mail/dkim/mail.txt'') = CHR ''t''" by simp
  then have l: "last (path_join r ''mail/dkim/mail.txt'') = CHR ''t''" by (simp only: x)
  show "path_join r ''mail/dkim/mail.txt'' \<noteq> ''/etc/nsd/nsd.conf''"
    "path_join r ''mail/dkim/mail.txt'' \<noteq> ''/etc/opendkim/KeyTable''"
    "path_join r ''mail/dkim/mail.txt'' \<noteq> ''/etc/opendkim/SigningTable''"
    using l by auto
qed

lemma key_file_not_table:
  "path_join r ''mail/dkim/mail.private'' \<noteq> ''/etc/opendkim/KeyTable''"
  "path_join r ''mail/dkim/mail.private'' \<noteq> ''/etc/opendkim/SigningTable''"
proof -
  obtain x where x: "path_join r ''mail/dkim/mail.private'' = x @ ''mail/dkim/mail.private''"
    using path_join_suffix by blast
  have "take 2 (rev (x @ ''mail/dkim/mail.private'')) = ''et''" by simp
  then have l: "take 2 (rev (path_join r ''mail/dkim/mail.private'')) = ''et''" by (simp only: x)
  show "path_join r ''mail/dkim/mail.private'' \<noteq> ''/etc/opendkim/KeyTable''"
    "path_join r ''mail/dkim/mail.private'' \<noteq> ''/etc/opendkim/SigningTable''"
    using l by auto
qed

lemma build_zone_frame:
  "fs' (path_join (STORAGE_ROOT env) ''mail/dkim/mail.txt'') =
   fs (path_join (STORAGE_ROOT env) ''mail/dkim/mail.txt'') \<Longrightarrow>
   build_zone d env fs' = build_zone d env fs"
  by (simp add: build_zone_def Let_def)

lemma settled_frame:
  assumes "settled env fs (d, zf)"
    and "fs' (path_join (STORAGE_ROOT env) ''mail/dkim/mail.txt'') =
         fs (path_join (STORAGE_ROOT env) ''mail/dkim/mail.txt'')"
    and "fs' (''/etc/nsd/zones/'' @ zf) = fs (''/etc/nsd/zones/'' @ zf)"
  shows "settled env fs' (d, zf)"
proof -
  have b: "build_zone d env fs' = build_zone d env fs"
    using assms(2) by (rule build_zone_frame)
  show ?thesis
    using assms(1) unfolding settled_def prod.case b assms(3) .
qed

lemma str_of_nat_digits: "all_digits (str_of_nat n)"
proof (induction n rule: str_of_nat.induct)
  case (1 n)
  have d: "is_digit (''0123456789'' ! k)" if "k < 10" for k
    unfolding is_digit_def using that by (intro nth_mem) simp
  show ?case
  proof (cases "n < 10")
    case True
    then show ?thesis
      by (subst str_of_nat.simps) (simp add: all_digits_def d del: nth_Cons_numeral)
  next
    case False
    with 1 have "all_digits (str_of_nat (n div 10))" by simp
    moreover have "is_digit (''0123456789'' ! (n mod 10))" by (rule d) simp
    ultimately show ?thesis using False
      by (subst str_of_nat.simps) (simp add: all_digits_def del: nth_Cons_numeral)
  qed
qed

lemma choose_serial_digits:
  "all_digits now \<Longrightarrow> choose_serial z now e = Some s \<Longrightarrow> all_digits s"
  by (auto simp: choose_serial_def Let_def str_of_nat_digits split: option.splits if_splits)

lemma choose_serial_None:
  "choose_serial z now e = None \<Longrightarrow> choose_serial z now' e = None"
  by (auto simp: choose_serial_def Let_def split: option.splits if_splits)

subsection \<open>The loop over the zone files\<close>

lemma sublist_skip:
  "old \<noteq> [] \<Longrightarrow> hd old \<notin> set a \<Longrightarrow> sublist old (a @ b) \<longleftrightarrow> sublist old b"
proof (induction a)
  case Nil
  then show ?case by simp
next
  case (Cons c a)
  then have "\<not> prefix old (c # a @ b)" by (cases old) auto
  with Cons show ?case by (simp add: sublist_Cons_right)
qed

lemma clean_dotted: "clean a \<Longrightarrow> clean b \<Longrightarrow> clean (a @ CHR ''.'' # b)"
  by (simp add: clean_def sublist_sep)

lemma clean_mx: "clean h \<Longrightarrow> clean (''10 '' @ h @ ''.'')"
proof -
  assume h: "clean h"
  then have c: "clean (h @ CHR ''.'' # [])" by (intro clean_dotted) (simp_all add: clean_def)
  have "\<not> sublist ''__SERIAL__'' (''10 '' @ (h @ ''.''))"
    using c by (subst sublist_skip) (simp_all add: clean_def)
  moreover have "\<not> sublist ''serial number'' (''10 '' @ (h @ ''.''))"
    using c by (subst sublist_skip) (simp_all add: clean_def)
  moreover have "CR \<notin> set (''10 '' @ (h @ ''.''))"
    using h by (simp add: clean_def)
  ultimately show ?thesis by (simp add: clean_def)
qed

lemma clean_ns: "clean h \<Longrightarrow> clean (''ns1.'' @ h @ ''.'')" "clean h \<Longrightarrow> clean (''ns2.'' @ h @ ''.'')"
proof -
  assume h: "clean h"
  have "clean (''ns1'' @ CHR ''.'' # (h @ CHR ''.'' # []))"
    using h by (intro clean_dotted) (simp_all add: clean_def sublist_code)
  then show "clean (''ns1.'' @ h @ ''.'')" by simp
  have "clean (''ns2'' @ CHR ''.'' # (h @ CHR ''.'' # []))"
    using h by (intro clean_dotted) (simp_all add: clean_def sublist_code)
  then show "clean (''ns2.'' @ h @ ''.'')" by simp
qed

lemma build_zone_clean:
  assumes "clean (PUBLIC_HOSTNAME env)" "clean (PUBLIC_IP env)" "dkim_clean env fs"
    and "build_zone d env fs = Inr rs"
  shows "\<forall>r \<in> set rs. clean_record r"
proof -
  have c: "clean ''NS''" "clean ''A''" "clean ''MX''" "clean ''TXT''" "clean ''www''"
    "clean ''ns1''" "clean ''ns2''" "clean ([DQ] @ ''v=spf1 mx -all'' @ [DQ])"
    "clean ''_adsp._domainkey''" "clean ''_dmarc''" "clean ([DQ] @ ''dkim=all'' @ [DQ])"
    "clean ([DQ] @ ''v=DMARC1; p=quarantine'' @ [DQ])"
    by (simp_all add: clean_def sublist_code)
  have b: "\<forall>r \<in> set (base_records env). clean_record r"
    using assms(1,2) c clean_ns [of "PUBLIC_HOSTNAME env"] clean_mx [of "PUBLIC_HOSTNAME env"]
    by (simp add: base_records_def clean_record_def)
  have n: "\<forall>r \<in> set (ns_records env). clean_record r"
    using assms(2) c by (simp add: ns_records_def clean_record_def)
  have p: "\<forall>r \<in> set policy_records. clean_record r"
    using c by (simp add: policy_records_def clean_record_def)
  have k: "clean_record (Some g1, ''TXT'', g2)"
    if "fs (path_join (STORAGE_ROOT env) ''mail/dkim/mail.txt'') = Some t"
      "dkim_match t = Some (g1, g2)" for t g1 g2
    using assms(3) that c(4) by (simp add: dkim_clean_def clean_record_def)
  show ?thesis
    using assms(4) b n p k
    by (auto simp: build_zone_def Let_def split: option.splits if_splits)
qed

lemma update_zone_cases:
  assumes "update_zone env now call d zf w = (Inr ch, w')"
  shows "\<exists>rs. build_zone d env (files w) = Inr rs \<and>
     (case choose_serial (render_zone d rs env) now (files w (''/etc/nsd/zones/'' @ zf)) of
        None \<Rightarrow> \<not> ch \<and> w' = w
      | Some serial \<Rightarrow> ch \<and> files w' = (files w)(''/etc/nsd/zones/'' @ zf \<mapsto>
            universal_newlines (replace_str ''__SERIAL__'' serial (render_zone d rs env))))"
proof (cases "build_zone d env (files w)")
  case (Inl e)
  with assms show ?thesis by (simp add: update_zone_def)
next
  case (Inr rs)
  define zp where "zp = ''/etc/nsd/zones/'' @ zf"
  define z where "z = render_zone d rs env"
  show ?thesis
  proof (cases "choose_serial z now (files w zp)")
    case None
    then have "write_nsd_zone d zp rs env now (files w) = (False, files w)"
      by (simp add: write_nsd_zone_def z_def)
    with assms Inr have "\<not> ch \<and> w' = w"
      by (simp add: update_zone_def zp_def)
    with Inr None show ?thesis by (simp add: zp_def z_def)
  next
    case (Some serial)
    define fs where
      "fs = (files w)(zp \<mapsto> universal_newlines (replace_str ''__SERIAL__'' serial z))"
    from Some have wz: "write_nsd_zone d zp rs env now (files w) = (True, fs)"
      by (simp add: write_nsd_zone_def z_def fs_def)
    obtain r w1 where j: "justtestingdotemail call d rs (w\<lparr>files := fs\<rparr>) = (r, w1)"
      by (cases "justtestingdotemail call d rs (w\<lparr>files := fs\<rparr>)")
    have "files w1 = fs"
      using justtestingdotemail_files [of call d rs "w\<lparr>files := fs\<rparr>"] j by simp
    moreover from assms Inr wz j have "ch \<and> w' = w1"
      by (cases r) (simp_all add: update_zone_def zp_def)
    ultimately have "ch \<and> files w' = fs" by simp
    with Inr Some show ?thesis by (simp add: zp_def z_def fs_def)
  qed
qed

lemma update_zone_result:
  assumes "clean d" "clean (PUBLIC_HOSTNAME env)" "clean (PUBLIC_IP env)" "all_digits now"
    and "dkim_clean env (files w)"
    and "update_zone env now call d (quote d [] @ ''.txt'') w = (Inr ch, w')"
  shows "settled env (files w') (d, quote d [] @ ''.txt'') \<and>
         (\<forall>p. p \<noteq> ''/etc/nsd/zones/'' @ quote d [] @ ''.txt'' \<longrightarrow> files w' p = files w p)"
proof -
  define zp where "zp = ''/etc/nsd/zones/'' @ quote d [] @ ''.txt''"
  define dk where "dk = path_join (STORAGE_ROOT env) ''mail/dkim/mail.txt''"
  have ne: "dk \<noteq> zp"
    unfolding dk_def zp_def by (rule dkim_file_not_zone)
  from update_zone_cases [OF assms(6)] obtain rs where rs: "build_zone d env (files w) = Inr rs"
    and c: "case choose_serial (render_zone d rs env) now (files w zp) of
        None \<Rightarrow> \<not> ch \<and> w' = w
      | Some serial \<Rightarrow> ch \<and> files w' = (files w)(zp \<mapsto>
            universal_newlines (replace_str ''__SERIAL__'' serial (render_zone d rs env)))"
    unfolding zp_def by blast
  have cr: "\<forall>r \<in> set rs. clean_record r"
    using assms(2,3,5) rs by (intro build_zone_clean [of env "files w" d]) simp_all
  show ?thesis
  proof (cases "choose_serial (render_zone d rs env) now (files w zp)")
    case None
    with c have "w' = w" by simp
    moreover have "settled env (files w) (d, quote d [] @ ''.txt'')"
      unfolding settled_def prod.case rs sum.case
      using choose_serial_None [OF None] unfolding zp_def .
    ultimately show ?thesis by simp
  next
    case (Some serial)
    define written where
      "written = universal_newlines (replace_str ''__SERIAL__'' serial (render_zone d rs env))"
    from c Some have f: "files w' = (files w)(zp \<mapsto> written)" by (simp add: written_def)
    have "files w' dk = files w dk" using ne by (simp add: f)
    then have "build_zone d env (files w') = build_zone d env (files w)"
      unfolding dk_def by (rule build_zone_frame)
    with rs have b: "build_zone d env (files w') = Inr rs" by simp
    have "all_digits serial" using assms(4) Some by (rule choose_serial_digits)
    with assms(1,2) cr have "choose_serial (render_zone d rs env) [] (Some written) = None"
      unfolding written_def by (intro roundtrip)
    moreover have "files w' zp = Some written" by (simp add: f)
    ultimately have "settled env (files w') (d, quote d [] @ ''.txt'')"
      unfolding settled_def prod.case b sum.case zp_def [symmetric] by simp
    moreover have "\<forall>p. p \<noteq> zp \<longrightarrow> files w' p = files w p" by (simp add: f)
    ultimately show ?thesis unfolding zp_def by simp
  qed
qed

lemma dkim_clean_frame:
  "dkim_clean env fs \<Longrightarrow>
   fs' (path_join (STORAGE_ROOT env) ''mail/dkim/mail.txt'') =
   fs (path_join (STORAGE_ROOT env) ''mail/dkim/mail.txt'') \<Longrightarrow> dkim_clean env fs'"
  by (simp add: dkim_clean_def)

lemma zone_path_inj:
  "''/etc/nsd/zones/'' @ quote d [] @ ''.txt'' = ''/etc/nsd/zones/'' @ quote d' [] @ ''.txt'' \<Longrightarrow> d = d'"
proof -
  assume "''/etc/nsd/zones/'' @ quote d [] @ ''.txt'' = ''/etc/nsd/zones/'' @ quote d' [] @ ''.txt''"
  then have "quote d [] = quote d' []" by simp
  then show "d = d'" by (rule quote_inj)
qed

lemma write_zones_step:
  assumes "write_zones env now call (zonefiles_of (d # ds)) upd w = (Inr upd', w')"
  shows "\<exists>ch wa. update_zone env now call d (quote d [] @ ''.txt'') w = (Inr ch, wa) \<and>
     write_zones env now call (zonefiles_of ds) (if ch then upd @ [d] else upd) wa = (Inr upd', w')"
proof -
  obtain r wa where u: "update_zone env now call d (quote d [] @ ''.txt'') w = (r, wa)"
    by (cases "update_zone env now call d (quote d [] @ ''.txt'') w")
  have z: "zonefiles_of (d # ds) = (d, quote d [] @ ''.txt'') # zonefiles_of ds"
    by (simp add: zonefiles_of_def)
  show ?thesis
  proof (cases r)
    case (Inl e)
    with assms u show ?thesis by (simp only: z write_zones.simps prod.case sum.case) simp
  next
    case (Inr ch)
    with assms u show ?thesis by (simp only: z write_zones.simps prod.case sum.case) simp
  qed
qed

lemma write_zones_settles:
  assumes "clean (PUBLIC_HOSTNAME env)" "clean (PUBLIC_IP env)" "all_digits now"
  shows "dkim_clean env (files w) \<Longrightarrow> distinct ds \<Longrightarrow> \<forall>d \<in> set ds. clean d \<Longrightarrow>
    write_zones env now call (zonefiles_of ds) upd w = (Inr upd', w') \<Longrightarrow>
    (\<forall>d \<in> set ds. settled env (files w') (d, quote d [] @ ''.txt'')) \<and>
    (\<forall>p. (\<forall>d \<in> set ds. p \<noteq> ''/etc/nsd/zones/'' @ quote d [] @ ''.txt'') \<longrightarrow>
       files w' p = files w p)"
proof (induction ds arbitrary: w upd)
  case Nil
  then show ?case by (simp add: zonefiles_of_def)
next
  case (Cons d ds)
  define zp where "zp = (\<lambda>d. ''/etc/nsd/zones/'' @ quote d [] @ ''.txt'')"
  define dk where "dk = path_join (STORAGE_ROOT env) ''mail/dkim/mail.txt''"
  have dkz: "dk \<noteq> zp x" for x
    unfolding dk_def zp_def by (rule dkim_file_not_zone)
  from write_zones_step [OF Cons.prems(4)] obtain ch wa where
    u: "update_zone env now call d (quote d [] @ ''.txt'') w = (Inr ch, wa)"
    and r: "write_zones env now call (zonefiles_of ds)
              (if ch then upd @ [d] else upd) wa = (Inr upd', w')"
    by blast
  from Cons.prems(3) have pd: "clean d" by simp
  have s: "settled env (files wa) (d, quote d [] @ ''.txt'')"
    and fr: "\<forall>p. p \<noteq> zp d \<longrightarrow> files wa p = files w p"
    using update_zone_result [OF pd assms(1,2,3) Cons.prems(1) u] unfolding zp_def by blast+
  have dk: "files wa dk = files w dk"
    using fr dkz by blast
  have dc: "dkim_clean env (files wa)"
    using Cons.prems(1) dk unfolding dk_def by (rule dkim_clean_frame)
  from Cons.prems(2) have dd: "distinct ds" and dn: "d \<notin> set ds" by simp_all
  from Cons.prems(3) have pl: "\<forall>d \<in> set ds. clean d" by simp
  from Cons.IH [OF dc dd pl r]
  have ih: "\<forall>d \<in> set ds. settled env (files w') (d, quote d [] @ ''.txt'')"
    and ihf: "\<forall>p. (\<forall>d \<in> set ds. p \<noteq> zp d) \<longrightarrow> files w' p = files wa p"
    unfolding zp_def by blast+
  have nd: "\<forall>x \<in> set ds. zp d \<noteq> zp x"
    using dn zone_path_inj unfolding zp_def by blast
  have 1: "files w' dk = files wa dk" using ihf dkz by blast
  have 2: "files w' (zp d) = files wa (zp d)" using ihf nd by blast
  have sd: "settled env (files w') (d, quote d [] @ ''.txt'')"
    using s 1 2 unfolding dk_def zp_def by (rule settled_frame)
  have f: "\<forall>p. (\<forall>x \<in> set (d # ds). p \<noteq> zp x) \<longrightarrow> files w' p = files w p"
  proof (intro allI impI)
    fix p assume a: "\<forall>x \<in> set (d # ds). p \<noteq> zp x"
    then have "files w' p = files wa p" using ihf by simp
    also have "\<dots> = files w p" using fr a by simp
    finally show "files w' p = files w p" .
  qed
  from sd ih have "\<forall>x \<in> set (d # ds). settled env (files w') (x, quote x [] @ ''.txt'')"
    by simp
  with f show ?case unfolding zp_def by blast
qed

lemma write_zones_settled:
  "\<forall>z \<in> set zfs. settled env (files w) z \<Longrightarrow>
   write_zones env now call zfs upd w = (Inr upd, w)"
proof (induction zfs)
  case Nil
  then show ?case by simp
next
  case (Cons z zfs)
  obtain d zf where z: "z = (d, zf)" by (cases z)
  from Cons.prems z obtain rs where rs: "build_zone d env (files w) = Inr rs"
    and c: "choose_serial (render_zone d rs env) [] (files w (''/etc/nsd/zones/'' @ zf)) = None"
    by (cases "build_zone d env (files w)") (auto simp: settled_def)
  have "update_zone env now call d zf w = (Inr False, w)"
    using rs choose_serial_None [OF c, of now]
    by (simp add: update_zone_def write_nsd_zone_def)
  with Cons z show ?case by simp
qed

subsection \<open>Running twice\<close>

lemma nsd_conf_no_cr:
  "\<forall>d \<in> set ds. CR \<notin> set d \<Longrightarrow> CR \<notin> set (nsd_conf (zonefiles_of ds))"
  by (auto simp: nsd_conf_def zonefiles_of_def quote_no_cr)

lemma write_nsd_conf_result:
  assumes "write_nsd_conf zfs fs = Inr (ch, fs')" and "CR \<notin> set (nsd_conf zfs)"
  shows "fs' ''/etc/nsd/nsd.conf'' = Some (nsd_conf zfs) \<and>
         (\<forall>p. p \<noteq> ''/etc/nsd/nsd.conf'' \<longrightarrow> fs' p = fs p)"
proof -
  have "universal_newlines (nsd_conf zfs) = nsd_conf zfs"
    using assms(2) by (rule universal_newlines_id)
  with assms(1) show ?thesis
    by (cases "fs ''/etc/nsd/nsd.conf''")
       (auto simp: write_nsd_conf_def Let_def split: if_splits)
qed

lemma write_opendkim_tables_frame:
  "p \<noteq> ''/etc/opendkim/KeyTable'' \<Longrightarrow> p \<noteq> ''/etc/opendkim/SigningTable'' \<Longrightarrow>
   write_opendkim_tables zfs env fs p = fs p"
  by (simp add: write_opendkim_tables_def Let_def)

lemma write_opendkim_tables_twice:
  "write_opendkim_tables zfs env (write_opendkim_tables zfs env fs) =
   write_opendkim_tables zfs env fs"
proof -
  define k where "k = path_join (STORAGE_ROOT env) ''mail/dkim/mail.private''"
  have "k \<noteq> ''/etc/opendkim/KeyTable''" "k \<noteq> ''/etc/opendkim/SigningTable''"
    unfolding k_def by (rule key_file_not_table)+
  then show ?thesis
    unfolding write_opendkim_tables_def Let_def k_def [symmetric]
    by (cases "fs k") simp_all
qed

lemma do_dns_update_cases:
  assumes "do_dns_update env ds now call w = (Inr out, w')"
  shows "\<exists>upd w1 ch fs2.
     write_zones env now call (zonefiles_of ds) [] w = (Inr upd, w1) \<and>
     write_nsd_conf (zonefiles_of ds) (files w1) = Inr (ch, fs2) \<and>
     files w' = write_opendkim_tables (zonefiles_of ds) env fs2"
proof -
  obtain r w1 where z: "write_zones env now call (zonefiles_of ds) [] w = (r, w1)"
    by (cases "write_zones env now call (zonefiles_of ds) [] w")
  show ?thesis
  proof (cases r)
    case (Inl e)
    with assms z show ?thesis by (simp add: do_dns_update_def)
  next
    case (Inr upd)
    note upd = Inr
    show ?thesis
    proof (cases "write_nsd_conf (zonefiles_of ds) (files w1)")
      case (Inl e)
      with assms z upd show ?thesis by (simp add: do_dns_update_def)
    next
      case (Inr c)
      obtain ch fs2 where c: "c = (ch, fs2)" by (cases c)
      from assms z upd Inr c
      have "files w' = write_opendkim_tables (zonefiles_of ds) env fs2"
        by (auto simp: do_dns_update_def Let_def os_system_def)
      with z upd Inr c show ?thesis by simp
    qed
  qed
qed

lemma first_run_settles:
  assumes "distinct ds" "\<forall>d \<in> set ds. clean d"
    and "clean (PUBLIC_HOSTNAME env)" "clean (PUBLIC_IP env)"
    and "dkim_clean env (files w)" "all_digits now"
    and "do_dns_update env ds now call w = (Inr out, w')"
  shows "(\<forall>d \<in> set ds. settled env (files w') (d, quote d [] @ ''.txt'')) \<and>
     files w' ''/etc/nsd/nsd.conf'' = Some (nsd_conf (zonefiles_of ds)) \<and>
     write_opendkim_tables (zonefiles_of ds) env (files w') = files w'"
proof -
  define dk where "dk = path_join (STORAGE_ROOT env) ''mail/dkim/mail.txt''"
  from do_dns_update_cases [OF assms(7)] obtain upd w1 ch fs2 where
    z: "write_zones env now call (zonefiles_of ds) [] w = (Inr upd, w1)"
    and c: "write_nsd_conf (zonefiles_of ds) (files w1) = Inr (ch, fs2)"
    and f: "files w' = write_opendkim_tables (zonefiles_of ds) env fs2"
    by blast
  from write_zones_settles [OF assms(3,4,6,5,1,2) z]
  have s1: "\<forall>d \<in> set ds. settled env (files w1) (d, quote d [] @ ''.txt'')" by blast
  from assms(2) have "\<forall>d \<in> set ds. CR \<notin> set d"
    unfolding clean_def by blast
  then have "CR \<notin> set (nsd_conf (zonefiles_of ds))" by (rule nsd_conf_no_cr)
  with c have "fs2 ''/etc/nsd/nsd.conf'' = Some (nsd_conf (zonefiles_of ds)) \<and>
         (\<forall>p. p \<noteq> ''/etc/nsd/nsd.conf'' \<longrightarrow> fs2 p = files w1 p)"
    by (rule write_nsd_conf_result)
  then have c1: "fs2 ''/etc/nsd/nsd.conf'' = Some (nsd_conf (zonefiles_of ds))"
    and c2: "\<forall>p. p \<noteq> ''/etc/nsd/nsd.conf'' \<longrightarrow> fs2 p = files w1 p" by blast+
  have dkc: "dk \<noteq> ''/etc/nsd/nsd.conf''" "dk \<noteq> ''/etc/opendkim/KeyTable''"
    "dk \<noteq> ''/etc/opendkim/SigningTable''"
    unfolding dk_def by (rule dkim_file_not_conf)+
  have "files w' dk = fs2 dk"
    unfolding f using dkc by (intro write_opendkim_tables_frame)
  then have fdk: "files w' dk = files w1 dk" using c2 dkc by simp
  have "settled env (files w') (d, quote d [] @ ''.txt'')" if "d \<in> set ds" for d
  proof -
    have "files w' (''/etc/nsd/zones/'' @ quote d [] @ ''.txt'') =
          fs2 (''/etc/nsd/zones/'' @ quote d [] @ ''.txt'')"
      unfolding f by (intro write_opendkim_tables_frame) simp_all
    also have "\<dots> = files w1 (''/etc/nsd/zones/'' @ quote d [] @ ''.txt'')"
      using c2 by simp
    finally have zz: "files w' (''/etc/nsd/zones/'' @ quote d [] @ ''.txt'') =
          files w1 (''/etc/nsd/zones/'' @ quote d [] @ ''.txt'')" .
    from s1 that have sd: "settled env (files w1) (d, quote d [] @ ''.txt'')" by blast
    show ?thesis
      using sd fdk [unfolded dk_def] zz by (rule settled_frame)
  qed
  moreover have "files w' ''/etc/nsd/nsd.conf'' = fs2 ''/etc/nsd/nsd.conf''"
    unfolding f by (intro write_opendkim_tables_frame) simp_all
  moreover have "write_opendkim_tables (zonefiles_of ds) env (files w') = files w'"
    unfolding f by (rule write_opendkim_tables_twice)
  ultimately show ?thesis using c1 by simp
qed

lemma settled_unchanged:
  assumes "settled env fs (d, zf)"
  shows "\<exists>rs. build_zone d env fs = Inr rs \<and>
     write_nsd_zone d (''/etc/nsd/zones/'' @ zf) rs env now fs = (False, fs)"
proof -
  from assms obtain rs where rs: "build_zone d env fs = Inr rs"
    and c: "choose_serial (render_zone d rs env) [] (fs (''/etc/nsd/zones/'' @ zf)) = None"
    by (cases "build_zone d env fs") (auto simp: settled_def)
  have "write_nsd_zone d (''/etc/nsd/zones/'' @ zf) rs env now fs = (False, fs)"
    using choose_serial_None [OF c, of now] by (simp add: write_nsd_zone_def)
  with rs show ?thesis by blast
qed

lemma settled_run:
  assumes "\<forall>d \<in> set ds. settled env (files w) (d, quote d [] @ ''.txt'')"
    and "files w ''/etc/nsd/nsd.conf'' = Some (nsd_conf (zonefiles_of ds))"
    and "write_opendkim_tables (zonefiles_of ds) env (files w) = files w"
  shows "do_dns_update env ds now call w =
     (Inr [], w\<lparr>commands := commands w @ [''service opendkim restart'']\<rparr>)"
proof -
  from assms(1) have "\<forall>z \<in> set (zonefiles_of ds). settled env (files w) z"
    by (simp add: zonefiles_of_def)
  then have z: "write_zones env now call (zonefiles_of ds) [] w = (Inr [], w)"
    by (rule write_zones_settled)
  have c: "write_nsd_conf (zonefiles_of ds) (files w) = Inr (False, files w)"
    using assms(2) by (simp add: write_nsd_conf_def)
  show ?thesis
    unfolding do_dns_update_def Let_def z c prod.case sum.case
    by (simp add: assms(3) os_system_def)
qed

text \<open>
  Claim C2, amended.  Let the first run end without an error, for a day whose serial is a
  string of digits.  If neither the domain names, the IP address nor the selector and
  value of the DKIM file contain the text \<open>__SERIAL__\<close>, the text \<open>serial number\<close> or a
  carriage return, then a second run that iterates over the domains in the same order, on
  whatever day and with whatever API, finds every zone file unchanged (\<open>write_nsd_zone\<close>
  returns \<open>False\<close>), finds the daemon configuration unchanged (\<open>write_nsd_conf\<close> returns
  \<open>False\<close>) and returns the empty string.  The two tables of the signing daemon are
  written again, with the text they hold already, so that every file reads after the
  second run as it did before, and the one command that is run is the restart of the
  signing daemon.
\<close>

theorem second_run_unchanged:
  assumes "domains_of env mail_domains domains"
    and "\<forall>d \<in> set domains. clean d"
    and "clean (PUBLIC_IP env)"
    and "dkim_clean env (files w)"
    and "all_digits now"
    and "do_dns_update env domains now call w = (Inr out, w')"
  shows "(\<forall>d \<in> set domains. \<exists>records.
           build_zone d env (files w') = Inr records \<and>
           write_nsd_zone d (''/etc/nsd/zones/'' @ quote d [] @ ''.txt'') records env now'
             (files w') = (False, files w')) \<and>
         write_nsd_conf (zonefiles_of domains) (files w') = Inr (False, files w') \<and>
         write_opendkim_tables (zonefiles_of domains) env (files w') = files w' \<and>
         do_dns_update env domains now' call' w' =
           (Inr [], w'\<lparr>commands := commands w' @ [''service opendkim restart'']\<rparr>)"
proof -
  from assms(1) have d: "distinct domains" and h: "PUBLIC_HOSTNAME env \<in> set domains"
    by (simp_all add: domains_of_def)
  from h assms(2) have ph: "clean (PUBLIC_HOSTNAME env)" by blast
  from first_run_settles [OF d assms(2) ph assms(3,4,5,6)]
  have s: "\<forall>d \<in> set domains. settled env (files w') (d, quote d [] @ ''.txt'')"
    and c: "files w' ''/etc/nsd/nsd.conf'' = Some (nsd_conf (zonefiles_of domains))"
    and t: "write_opendkim_tables (zonefiles_of domains) env (files w') = files w'"
    by blast+
  have "\<forall>d \<in> set domains. \<exists>records.
           build_zone d env (files w') = Inr records \<and>
           write_nsd_zone d (''/etc/nsd/zones/'' @ quote d [] @ ''.txt'') records env now'
             (files w') = (False, files w')"
    using s settled_unchanged by blast
  moreover have "write_nsd_conf (zonefiles_of domains) (files w') = Inr (False, files w')"
    using c by (simp add: write_nsd_conf_def)
  moreover note t settled_run [OF s c t, of now' call']
  ultimately show ?thesis by blast
qed
subsection \<open>The notifier\<close>

lemma write_zones_append:
  "write_zones env now call a upd w = (Inr upd1, w1) \<Longrightarrow>
   write_zones env now call (a @ b) upd w = write_zones env now call b upd1 w1"
proof (induction a arbitrary: upd w)
  case Nil
  then show ?case by simp
next
  case (Cons z a)
  obtain d zf where z: "z = (d, zf)" by (cases z)
  obtain r wa where u: "update_zone env now call d zf w = (r, wa)"
    by (cases "update_zone env now call d zf w")
  show ?case
  proof (cases r)
    case (Inl e)
    with Cons.prems z u show ?thesis by simp
  next
    case (Inr ch)
    with Cons.prems z u
    have "write_zones env now call a (if ch then upd @ [d] else upd) wa = (Inr upd1, w1)"
      by simp
    then have "write_zones env now call (a @ b) (if ch then upd @ [d] else upd) wa =
               write_zones env now call b upd1 w1"
      by (rule Cons.IH)
    with z u Inr show ?thesis by simp
  qed
qed

lemma zonefiles_of_append:
  "zonefiles_of (a @ d # b) = zonefiles_of a @ (d, quote d [] @ ''.txt'') # zonefiles_of b"
  by (simp add: zonefiles_of_def)

text \<open>
  Claim C8, amended.  \<open>justtestingdotemail\<close> does nothing for a domain that does not end
  in \<open>.justtesting.email\<close>; one pass of the loop sends a request only for such a domain
  and only after \<open>write_nsd_zone\<close> has written its zone file; and a failure of the call is
  not caught, wherever the domain stands in the loop: when the domains before it have
  been dealt with, the failure leaves \<open>do_dns_update\<close> as an error, in the state in which
  the call failed, and the rest of the run is skipped.
\<close>

theorem notifier_isolation:
  "(\<not> suffix ''.justtesting.email'' domain \<longrightarrow>
      justtestingdotemail call domain records w = (Inr (), w)) \<and>
   (requests (snd (update_zone env now call domain zonefile w)) \<noteq> requests w \<longrightarrow>
      suffix ''.justtesting.email'' domain \<and>
      (\<exists>rs fs. build_zone domain env (files w) = Inr rs \<and>
         write_nsd_zone domain (''/etc/nsd/zones/'' @ zonefile) rs env now (files w) = (True, fs) \<and>
         files (snd (update_zone env now call domain zonefile w)) = fs)) \<and>
   (write_zones env now call (zonefiles_of before) [] w = (Inr updated, w1) \<longrightarrow>
    build_zone domain env (files w1) = Inr records \<longrightarrow>
    write_nsd_zone domain (''/etc/nsd/zones/'' @ quote domain [] @ ''.txt'') records env now
      (files w1) = (True, fs') \<longrightarrow>
    justtestingdotemail call domain records (w1\<lparr>files := fs'\<rparr>) = (Inl e, w') \<longrightarrow>
    do_dns_update env (before @ domain # rest) now call w = (Inl e, w'))"
proof (intro conjI impI)
  assume "\<not> suffix ''.justtesting.email'' domain"
  then show "justtestingdotemail call domain records w = (Inr (), w)"
    by (simp add: justtestingdotemail_def)
next
  assume r: "requests (snd (update_zone env now call domain zonefile w)) \<noteq> requests w"
  show "suffix ''.justtesting.email'' domain"
  proof (rule ccontr)
    assume "\<not> suffix ''.justtesting.email'' domain"
    then have "\<And>rs v. justtestingdotemail call domain rs v = (Inr (), v)"
      by (simp add: justtestingdotemail_def)
    then have "requests (snd (update_zone env now call domain zonefile w)) = requests w"
      by (auto simp: update_zone_def split: sum.splits prod.splits bool.splits)
    with r show False by simp
  qed
next
  assume r: "requests (snd (update_zone env now call domain zonefile w)) \<noteq> requests w"
  then obtain rs where rs: "build_zone domain env (files w) = Inr rs"
    by (cases "build_zone domain env (files w)") (auto simp: update_zone_def)
  obtain ch fs where wz:
    "write_nsd_zone domain (''/etc/nsd/zones/'' @ zonefile) rs env now (files w) = (ch, fs)"
    by (cases "write_nsd_zone domain (''/etc/nsd/zones/'' @ zonefile) rs env now (files w)")
  from r rs wz have ch: "ch" by (cases ch) (auto simp: update_zone_def)
  have "files (snd (update_zone env now call domain zonefile w)) =
        files (snd (justtestingdotemail call domain rs (w\<lparr>files := fs\<rparr>)))"
    using rs wz ch by (auto simp: update_zone_def split: sum.splits prod.splits)
  then have "files (snd (update_zone env now call domain zonefile w)) = fs"
    by (simp add: justtestingdotemail_files)
  with rs wz ch show "\<exists>rs fs. build_zone domain env (files w) = Inr rs \<and>
         write_nsd_zone domain (''/etc/nsd/zones/'' @ zonefile) rs env now (files w) = (True, fs) \<and>
         files (snd (update_zone env now call domain zonefile w)) = fs"
    by auto
next
  assume b: "write_zones env now call (zonefiles_of before) [] w = (Inr updated, w1)"
    and "build_zone domain env (files w1) = Inr records"
    and "write_nsd_zone domain (''/etc/nsd/zones/'' @ quote domain [] @ ''.txt'') records env now
           (files w1) = (True, fs')"
    and "justtestingdotemail call domain records (w1\<lparr>files := fs'\<rparr>) = (Inl e, w')"
  then have "update_zone env now call domain (quote domain [] @ ''.txt'') w1 = (Inl e, w')"
    by (simp add: update_zone_def)
  then have "write_zones env now call
      ((domain, quote domain [] @ ''.txt'') # zonefiles_of rest) updated w1 = (Inl e, w')"
    by (rule write_zones_error)
  then have "write_zones env now call (zonefiles_of (before @ domain # rest)) [] w = (Inl e, w')"
    unfolding zonefiles_of_append using write_zones_append [OF b] by simp
  then show "do_dns_update env (before @ domain # rest) now call w = (Inl e, w')"
    by (simp add: do_dns_update_def)
qed

lemma test_clean:
  "clean ''example.org''" "clean ''box.justtesting.email''" "clean (PUBLIC_HOSTNAME test_env)"
  "clean (PUBLIC_IP test_env)" "all_digits ''2024060100''"
  by (simp_all add: clean_def sublist_code test_env_def all_digits_def is_digit_def)

lemma test_build:
  "fs ''/home/user-data/mail/dkim/mail.txt'' = None \<Longrightarrow>
   build_zone ''box.justtesting.email'' test_env fs =
     Inr (base_records test_env @ ns_records test_env)"
  "fs ''/home/user-data/mail/dkim/mail.txt'' = None \<Longrightarrow>
   build_zone ''example.org'' test_env fs = Inr (base_records test_env)"
  by (simp_all add: build_zone_def test_env_def path_join_def suffix_def Let_def)

lemma test_quote:
  "quote ''box.justtesting.email'' [] = ''box.justtesting.email''"
  "quote ''example.org'' [] = ''example.org''"
  by (simp_all add: quote_def quote_char_def always_safe_def)

lemma test_write:
  assumes "fs ''/etc/nsd/zones/box.justtesting.email.txt'' = None"
  shows "write_nsd_zone ''box.justtesting.email'' ''/etc/nsd/zones/box.justtesting.email.txt''
     (base_records test_env @ ns_records test_env) test_env ''2024060100'' fs =
   (True, fs(''/etc/nsd/zones/box.justtesting.email.txt'' \<mapsto> test_zone))"
proof -
  have "dkim_clean test_env Map.empty" by (simp add: dkim_clean_def)
  with test_clean(3,4)
  have "\<forall>r \<in> set (base_records test_env @ ns_records test_env). clean_record r"
    by (rule build_zone_clean) (rule test_build(1), simp)
  with test_clean(2,3) have "universal_newlines test_zone = test_zone"
    unfolding test_zone_def using test_clean(5) by (rule written_no_cr)
  then show ?thesis
    using assms by (simp add: write_nsd_zone_new test_zone_def)
qed

lemma test_notify:
  "justtestingdotemail api_down ''box.justtesting.email''
     (base_records test_env @ ns_records test_env)
     \<lparr>files = fs, commands = [], requests = [], stdout = []\<rparr> =
   (Inl NotifierError, \<lparr>files = fs, commands = [],
     requests = [(''https://api.dns4e.com/v7/box.justtesting.email/txt'',
                  ''record=%22v%3Dspf1%20mx%20-all%22'')],
     stdout = [''Updating DNS for box.justtesting.email/TXT...'']\<rparr>)"
  by (simp add: justtestingdotemail_def suffix_def base_records_def ns_records_def test_env_def
      Let_def strip_parens_def is_space_def quote_def quote_char_def always_safe_def pct_def
      utf8_bytes_def hex_digit_def str_lower_def lower_char_def api_down_def)

lemma mirror_write:
  "write_zones test_env ''2024060100'' api_down (zonefiles_of [''example.org'']) [] world0 =
     (Inr [''example.org''], world0\<lparr>files := mirror_files\<rparr>)"
proof -
  have "dkim_clean test_env Map.empty" by (simp add: dkim_clean_def)
  with test_clean(3,4) have "\<forall>r \<in> set (base_records test_env). clean_record r"
    by (rule build_zone_clean) (rule test_build(2), simp)
  with test_clean(1,3)
  have n: "universal_newlines (replace_str ''__SERIAL__'' ''2024060100''
       (render_zone ''example.org'' (base_records test_env) test_env)) =
     replace_str ''__SERIAL__'' ''2024060100''
       (render_zone ''example.org'' (base_records test_env) test_env)"
    using test_clean(5) by (rule written_no_cr)
  have w: "write_nsd_zone ''example.org'' ''/etc/nsd/zones/example.org.txt''
     (base_records test_env) test_env ''2024060100'' Map.empty = (True, mirror_files)"
    by (simp add: write_nsd_zone_new n mirror_files_def)
  show ?thesis
    by (simp add: zonefiles_of_def test_quote update_zone_def world0_def test_build w
        justtestingdotemail_def suffix_def)
qed

text \<open>
  Claim C8, as stated, fails: a failing API call aborts the run (no configuration is
  written and no daemon is restarted).
\<close>

theorem notifier_failure_counterexample:
  "do_dns_update test_env [''box.justtesting.email''] ''2024060100'' api_down world0 =
     (Inl NotifierError, notified_world)"
  by (simp add: do_dns_update_def zonefiles_of_def update_zone_def test_quote world0_def
      test_build test_write test_notify notified_world_def test_files_def)

theorem notifier_isolation_witness:
  "justtestingdotemail api_down ''mail.example.com'' (base_records env0) world0 = (Inr (), world0) \<and>
   do_dns_update test_env [''example.org'', ''box.justtesting.email''] ''2024060100'' api_down
     world0 = (Inl NotifierError, late_notified_world)"
proof -
  define w1 where "w1 = world0\<lparr>files := mirror_files\<rparr>"
  define fs' where
    "fs' = mirror_files(''/etc/nsd/zones/box.justtesting.email.txt'' \<mapsto> test_zone)"
  define rs where "rs = base_records test_env @ ns_records test_env"
  have f: "files w1 = mirror_files" by (simp add: w1_def)
  have n: "mirror_files ''/home/user-data/mail/dkim/mail.txt'' = None"
    "mirror_files ''/etc/nsd/zones/box.justtesting.email.txt'' = None"
    by (simp_all add: mirror_files_def)
  have s: "\<not> suffix ''.justtesting.email'' ''mail.example.com''"
    by (simp add: suffix_def)
  have z: "write_zones test_env ''2024060100'' api_down (zonefiles_of [''example.org'']) []
      world0 = (Inr [''example.org''], w1)"
    unfolding w1_def by (rule mirror_write)
  have b: "build_zone ''box.justtesting.email'' test_env (files w1) = Inr rs"
    unfolding f rs_def using test_build(1) [of mirror_files] n(1) by simp
  have c: "write_nsd_zone ''box.justtesting.email''
      (''/etc/nsd/zones/'' @ quote ''box.justtesting.email'' [] @ ''.txt'') rs test_env
      ''2024060100'' (files w1) = (True, fs')"
    unfolding f rs_def fs'_def using test_write [of mirror_files] n(2) by (simp add: test_quote)
  have j: "justtestingdotemail api_down ''box.justtesting.email'' rs (w1\<lparr>files := fs'\<rparr>) =
      (Inl NotifierError, late_notified_world)"
    using test_notify [of fs']
    by (simp add: rs_def w1_def world0_def late_notified_world_def fs'_def)
  have 1: "justtestingdotemail api_down ''mail.example.com'' (base_records env0) world0 =
      (Inr (), world0)"
    using notifier_isolation [where domain = "''mail.example.com''" and call = api_down
      and records = "base_records env0" and w = world0] s by blast
  have "do_dns_update test_env ([''example.org''] @ ''box.justtesting.email'' # [])
      ''2024060100'' api_down world0 = (Inl NotifierError, late_notified_world)"
    using notifier_isolation [where domain = "''box.justtesting.email''" and w = world0
      and env = test_env and now = "''2024060100''" and before = "[''example.org'']"
      and updated = "[''example.org'']" and ?w1.0 = w1 and records = rs and fs' = fs'
      and call = api_down and e = NotifierError and w' = late_notified_world and rest = "[]"]
      z b c j by blast
  with 1 show ?thesis by simp
qed
lemma first_run_result:
  "fst (do_dns_update env0 two_domains ''2024060100'' api_ok initial_world) =
     Inr (''updated: mail.example.com,example.org'' @ [NL])"
  by (simp add: do_dns_update_def two_domains_def zonefiles_of_def quote_def quote_char_def
      always_safe_def update_zone_def build_zone_def env0_def initial_world_def dkim_path
      dkim_text_match write_nsd_zone_new justtestingdotemail_def suffix_def
      write_nsd_conf_def nsd_conf_def write_opendkim_tables_def key_path os_system_def Let_def)

lemma first_run:
  "do_dns_update env0 two_domains ''2024060100'' api_ok initial_world =
     (Inr (''updated: mail.example.com,example.org'' @ [NL]), after_first_run)"
  using first_run_result unfolding after_first_run_def by (simp add: prod_eq_iff)

lemma first_run_hyps:
  "domains_of env0 {''example.org''} two_domains"
  "\<forall>d \<in> set two_domains. clean d"
  "clean (PUBLIC_IP env0)"
  "dkim_clean env0 (files initial_world)"
  "all_digits ''2024060100''"
  by (simp_all add: domains_of_def two_domains_def env0_def clean_def sublist_code
      dkim_clean_def initial_world_def dkim_path dkim_text_match all_digits_def is_digit_def)

theorem second_run_unchanged_witness:
  "do_dns_update env0 two_domains ''2024060100'' api_ok initial_world =
     (Inr (''updated: mail.example.com,example.org'' @ [NL]), after_first_run) \<and>
   write_nsd_conf (zonefiles_of two_domains) (files after_first_run) =
     Inr (False, files after_first_run) \<and>
   do_dns_update env0 two_domains ''2024060200'' api_down after_first_run =
     (Inr [], after_first_run\<lparr>commands := commands after_first_run @
        [''service opendkim restart'']\<rparr>)"
  using second_run_unchanged [OF first_run_hyps first_run, of "''2024060200''" api_down] first_run
  by simp

lemma after_first_run_settled:
  "\<forall>d \<in> set two_domains. settled env0 (files after_first_run) (d, quote d [] @ ''.txt'')"
  "files after_first_run ''/etc/nsd/nsd.conf'' = Some (nsd_conf (zonefiles_of two_domains))"
proof -
  from first_run_hyps(1) have d: "distinct two_domains"
    and h: "PUBLIC_HOSTNAME env0 \<in> set two_domains"
    by (simp_all add: domains_of_def)
  from h first_run_hyps(2) have ph: "clean (PUBLIC_HOSTNAME env0)" by blast
  from first_run_settles [OF d first_run_hyps(2) ph first_run_hyps(3,4,5) first_run]
  show "\<forall>d \<in> set two_domains. settled env0 (files after_first_run) (d, quote d [] @ ''.txt'')"
    "files after_first_run ''/etc/nsd/nsd.conf'' = Some (nsd_conf (zonefiles_of two_domains))"
    by blast+
qed

lemma other_order:
  "fst (do_dns_update env0 [''example.org'', ''mail.example.com''] ''2024060100'' api_ok
          after_first_run) = Inr (''updated: DNS configuration'' @ [NL])"
proof -
  have "\<forall>z \<in> set (zonefiles_of [''example.org'', ''mail.example.com'']).
          settled env0 (files after_first_run) z"
    using after_first_run_settled(1) by (simp add: zonefiles_of_def two_domains_def)
  then have z: "write_zones env0 ''2024060100'' api_ok
      (zonefiles_of [''example.org'', ''mail.example.com'']) [] after_first_run =
      (Inr [], after_first_run)"
    by (rule write_zones_settled)
  have n: "nsd_conf (zonefiles_of two_domains) \<noteq>
           nsd_conf (zonefiles_of [''example.org'', ''mail.example.com''])"
    by (simp add: nsd_conf_def zonefiles_of_def two_domains_def)
  have c: "write_nsd_conf (zonefiles_of [''example.org'', ''mail.example.com''])
      (files after_first_run) =
      Inr (True, (files after_first_run)(''/etc/nsd/nsd.conf'' \<mapsto>
        universal_newlines (nsd_conf (zonefiles_of [''example.org'', ''mail.example.com'']))))"
    using n by (simp add: write_nsd_conf_def after_first_run_settled(2))
  show ?thesis
    unfolding do_dns_update_def Let_def z c prod.case sum.case
    by simp
qed

lemma token_domain:
  "fst (write_nsd_zone ''__SERIAL__.example.org'' ''/etc/nsd/zones/__SERIAL__.example.org.txt''
     (base_records env0) env0 ''2024060100''
     (snd (write_nsd_zone ''__SERIAL__.example.org'' ''/etc/nsd/zones/__SERIAL__.example.org.txt''
        (base_records env0) env0 ''2024060100'' Map.empty))) = True"
  by (simp add: write_nsd_zone_def choose_serial_def render_zone_def zone_template_def
      add_record_def base_records_def env0_def match_serial_def is_digit_def is_space_def
      Let_def)

lemma words_domain:
  "fst (write_nsd_zone ''1;serial number.example.org''
     ''/etc/nsd/zones/1%3Bserial%20number.example.org.txt''
     (base_records env0) env0 ''2024060100''
     (snd (write_nsd_zone ''1;serial number.example.org''
        ''/etc/nsd/zones/1%3Bserial%20number.example.org.txt''
        (base_records env0) env0 ''2024060100'' Map.empty))) = True"
  by (simp add: write_nsd_zone_def choose_serial_def render_zone_def zone_template_def
      add_record_def base_records_def env0_def match_serial_def is_digit_def is_space_def
      Let_def)

lemma universal_newlines_no_cr: "CR \<notin> set (universal_newlines s)"
  by (induction s rule: universal_newlines.induct) auto

lemma replace_str_keeps_out:
  "c \<notin> set new \<Longrightarrow> c \<notin> set s \<Longrightarrow> c \<notin> set (replace_str old new s)"
proof (induction old new s rule: replace_str.induct)
  case (1 old new)
  then show ?case by simp
next
  case (2 old new d cs)
  from 2(4,5) have "c \<notin> set (drop (length old - 1) cs)" "c \<notin> set cs" "c \<noteq> d"
    by (auto dest: in_set_dropD)
  with 2 show ?case by auto
qed

lemma cr_rewritten:
  assumes "CR \<in> set zone" and "CR \<notin> set existing"
  shows "choose_serial zone now (Some existing) \<noteq> None"
proof (cases "search_serial existing")
  case None
  then show ?thesis by (simp add: choose_serial_def)
next
  case (Some m)
  obtain m0 es where m: "m = (m0, es)" by (cases m)
  have "CR \<notin> set (replace_str m0 ''__SERIAL__     ; serial number'' existing)"
    using _ assms(2) by (rule replace_str_keeps_out) simp
  with assms(1) have "zone \<noteq> replace_str m0 ''__SERIAL__     ; serial number'' existing"
    by metis
  with Some m show ?thesis by (simp add: choose_serial_def Let_def)
qed

lemma cr_address:
  "fst (write_nsd_zone ''example.org'' ''/etc/nsd/zones/example.org.txt''
     (base_records cr_env) cr_env ''2024060100''
     (snd (write_nsd_zone ''example.org'' ''/etc/nsd/zones/example.org.txt''
        (base_records cr_env) cr_env ''2024060100'' Map.empty))) = True"
proof -
  define zone where "zone = render_zone ''example.org'' (base_records cr_env) cr_env"
  define existing where
    "existing = universal_newlines (replace_str ''__SERIAL__'' ''2024060100'' zone)"
  have 1: "snd (write_nsd_zone ''example.org'' ''/etc/nsd/zones/example.org.txt''
        (base_records cr_env) cr_env ''2024060100'' Map.empty) =
      [''/etc/nsd/zones/example.org.txt'' \<mapsto> existing]"
    by (simp add: write_nsd_zone_new zone_def existing_def)
  have "CR \<in> set zone"
    by (simp add: zone_def render_zone_def zone_template_def base_records_def add_record_def
        cr_env_def)
  moreover have "CR \<notin> set existing"
    unfolding existing_def by (rule universal_newlines_no_cr)
  ultimately have "choose_serial zone ''2024060100'' (Some existing) \<noteq> None"
    by (rule cr_rewritten)
  then obtain serial where "choose_serial zone ''2024060100'' (Some existing) = Some serial"
    by blast
  then show ?thesis
    unfolding 1 by (simp add: write_nsd_zone_def zone_def [symmetric])
qed

text \<open>
  Claim C2, as stated, fails, and each condition of the amended claim is needed.  Python
  iterates over the set of domains in an order that may differ from one run to the next:
  after a first run over \<open>mail.example.com\<close> and \<open>example.org\<close>, a second run that meets
  the same two domains in the other order finds every zone file unchanged but rewrites
  \<open>nsd.conf\<close> and reports it.  A domain name that contains the serial token is written
  with the serial in its place; under a domain name that contains a serial line
  (\<open>1;serial number\<close>) the file is read back with that name taken for the serial line;
  and a carriage return in the IP address is written to the zone file and read back as
  a line feed.  In each of these cases \<open>write_nsd_zone\<close> finds a difference, and returns
  \<open>True\<close>, on the run that follows the one that wrote the file.
\<close>

theorem second_run_counterexample:
  "do_dns_update env0 two_domains ''2024060100'' api_ok initial_world =
     (Inr (''updated: mail.example.com,example.org'' @ [NL]), after_first_run) \<and>
   fst (do_dns_update env0 [''example.org'', ''mail.example.com''] ''2024060100'' api_ok
          after_first_run) = Inr (''updated: DNS configuration'' @ [NL]) \<and>
   fst (write_nsd_zone ''__SERIAL__.example.org'' ''/etc/nsd/zones/__SERIAL__.example.org.txt''
     (base_records env0) env0 ''2024060100''
     (snd (write_nsd_zone ''__SERIAL__.example.org'' ''/etc/nsd/zones/__SERIAL__.example.org.txt''
        (base_records env0) env0 ''2024060100'' Map.empty))) = True \<and>
   fst (write_nsd_zone ''1;serial number.example.org''
     ''/etc/nsd/zones/1%3Bserial%20number.example.org.txt''
     (base_records env0) env0 ''2024060100''
     (snd (write_nsd_zone ''1;serial number.example.org''
        ''/etc/nsd/zones/1%3Bserial%20number.example.org.txt''
        (base_records env0) env0 ''2024060100'' Map.empty))) = True \<and>
   fst (write_nsd_zone ''example.org'' ''/etc/nsd/zones/example.org.txt''
     (base_records cr_env) cr_env ''2024060100''
     (snd (write_nsd_zone ''example.org'' ''/etc/nsd/zones/example.org.txt''
        (base_records cr_env) cr_env ''2024060100'' Map.empty))) = True"
  by (rule conjI [OF first_run conjI [OF other_order conjI [OF token_domain
      conjI [OF words_domain cr_address]]]])
subsection \<open>The comparison of serials\<close>

lemma base_records_clean:
  "clean (PUBLIC_HOSTNAME env) \<Longrightarrow> clean (PUBLIC_IP env) \<Longrightarrow>
   \<forall>r \<in> set (base_records env). clean_record r"
proof -
  assume c: "clean (PUBLIC_HOSTNAME env)" "clean (PUBLIC_IP env)"
  have "build_zone (CHR ''x'' # PUBLIC_HOSTNAME env) env Map.empty = Inr (base_records env)"
    by (simp add: build_zone_def)
  with c show ?thesis
    by (intro build_zone_clean [of env Map.empty]) (simp_all add: dkim_clean_def)
qed

lemma example_clean:
  "clean ''example.org''" "clean (PUBLIC_HOSTNAME old_env)" "clean (PUBLIC_HOSTNAME env0)"
  "\<forall>r \<in> set (base_records old_env). clean_record r"
  "\<forall>r \<in> set (base_records env0). clean_record r"
proof -
  show p: "clean ''example.org''" "clean (PUBLIC_HOSTNAME old_env)"
    "clean (PUBLIC_HOSTNAME env0)"
    by (simp_all add: clean_def sublist_code old_env_def env0_def)
  have ci: "clean (PUBLIC_IP old_env)" "clean (PUBLIC_IP env0)"
    by (simp_all add: clean_def sublist_code old_env_def env0_def)
  from p(2) show "\<forall>r \<in> set (base_records old_env). clean_record r"
    using ci(1) by (rule base_records_clean)
  from p(3) show "\<forall>r \<in> set (base_records env0). clean_record r"
    using ci(2) by (rule base_records_clean)
qed

lemma zones_differ:
  "render_zone ''example.org'' (base_records env0) env0 \<noteq>
   render_zone ''example.org'' (base_records old_env) old_env"
  by (simp add: render_zone_def zone_template_def base_records_def add_record_def
      env0_def old_env_def)

text \<open>
  Claim C3.  The test \<open>existing_serial >= serial\<close> compares two strings, so it is
  lexicographic.  A zone file whose serial is 42, numerically below the candidate
  2024060100, compares as not less (\<open>4\<close> is above \<open>2\<close>): the code increments 42 to 43,
  where a comparison of the values would take the candidate.
\<close>

theorem serial_compared_as_text:
  "search_serial counter_zone = Some (''42     ; serial number'', ''42'') \<and>
   int_of_str ''42'' < int_of_str ''2024060100'' \<and>
   write_nsd_zone ''example.org'' ''/etc/nsd/zones/example.org.txt'' (base_records env0) env0
     ''2024060100'' [''/etc/nsd/zones/example.org.txt'' \<mapsto> counter_zone] =
   (True, [''/etc/nsd/zones/example.org.txt'' \<mapsto>
      replace_str ''__SERIAL__'' ''43''
        (render_zone ''example.org'' (base_records env0) env0)]) \<and>
   search_serial (replace_str ''__SERIAL__'' ''43''
        (render_zone ''example.org'' (base_records env0) env0)) =
     Some (''43     ; serial number'', ''43'')"
proof -
  have d: "all_digits ''42''" "all_digits ''43''"
    by (simp_all add: all_digits_def is_digit_def)
  note old = read_back [OF example_clean(1,2,4) d(1), folded counter_zone_def]
  note new = read_back(1) [OF example_clean(1,3,5) d(2)]
  note nocr = written_no_cr [OF example_clean(1,3,5) d(2)]
  have "choose_serial (render_zone ''example.org'' (base_records env0) env0) ''2024060100''
          (Some counter_zone) = Some ''43''"
    using zones_differ old
    by (simp add: choose_serial_def int_of_str_def digit_val_def str_of_nat.simps)
  then show ?thesis
    using old(1) new nocr
    by (simp add: write_nsd_zone_def int_of_str_def digit_val_def)
qed

text \<open>
  Claim C1.  By the same comparison of strings, a zone file whose serial 02024060200 has
  a leading zero compares as less than the candidate 2024060100, although its value is
  greater: the file is rewritten with the candidate, and the serial on disk goes down.
\<close>

theorem serial_decreases:
  "search_serial padded_zone =
     Some (''02024060200     ; serial number'', ''02024060200'') \<and>
   write_nsd_zone ''example.org'' ''/etc/nsd/zones/example.org.txt'' (base_records env0) env0
     ''2024060100'' [''/etc/nsd/zones/example.org.txt'' \<mapsto> padded_zone] =
   (True, [''/etc/nsd/zones/example.org.txt'' \<mapsto>
      replace_str ''__SERIAL__'' ''2024060100''
        (render_zone ''example.org'' (base_records env0) env0)]) \<and>
   search_serial (replace_str ''__SERIAL__'' ''2024060100''
        (render_zone ''example.org'' (base_records env0) env0)) =
     Some (''2024060100     ; serial number'', ''2024060100'') \<and>
   int_of_str ''2024060100'' < int_of_str ''02024060200''"
proof -
  have d: "all_digits ''02024060200''" "all_digits ''2024060100''"
    by (simp_all add: all_digits_def is_digit_def)
  note old = read_back [OF example_clean(1,2,4) d(1), folded padded_zone_def]
  note new = read_back(1) [OF example_clean(1,3,5) d(2)]
  note nocr = written_no_cr [OF example_clean(1,3,5) d(2)]
  have "choose_serial (render_zone ''example.org'' (base_records env0) env0) ''2024060100''
          (Some padded_zone) = Some ''2024060100''"
    using zones_differ old
    by (simp add: choose_serial_def)
  then show ?thesis
    using old(1) new nocr
    by (simp add: write_nsd_zone_def int_of_str_def digit_val_def)
qed

subsection \<open>Serials of the same length\<close>

lemma digit_cases:
  "is_digit c \<Longrightarrow> (of_char c :: nat) = 48 + digit_val c \<and> digit_val c < 10"
  by (auto simp: is_digit_def digit_val_def)

lemma int_of_str_acc:
  "foldl (\<lambda>a c. 10 * a + digit_val c) acc s = acc * 10 ^ length s + int_of_str s"
proof -
  define f where "f = (\<lambda>a c. 10 * a + digit_val c)"
  have "foldl f acc s = acc * 10 ^ length s + foldl f 0 s"
  proof (induction s arbitrary: acc)
    case Nil
    then show ?case by simp
  next
    case (Cons c s)
    have 1: "foldl f (f acc c) s = f acc c * 10 ^ length s + foldl f 0 s" by (rule Cons.IH)
    have 2: "foldl f (f 0 c) s = f 0 c * 10 ^ length s + foldl f 0 s" by (rule Cons.IH)
    have 3: "f acc c * 10 ^ length s = acc * 10 ^ length (c # s) + f 0 c * 10 ^ length s"
      by (simp add: f_def algebra_simps)
    show ?case by (simp only: foldl_Cons 1 2 3)
  qed
  then show ?thesis by (simp only: f_def int_of_str_def)
qed

lemma int_of_str_Cons:
  "int_of_str (c # s) = digit_val c * 10 ^ length s + int_of_str s"
  using int_of_str_acc [of "digit_val c" s] by (simp add: int_of_str_def)

lemma int_of_str_snoc:
  "int_of_str (s @ [c]) = 10 * int_of_str s + digit_val c"
  by (simp add: int_of_str_def)

lemma int_of_str_bound: "list_all is_digit s \<Longrightarrow> int_of_str s < 10 ^ length s"
proof (induction s)
  case Nil
  then show ?case by (simp add: int_of_str_def)
next
  case (Cons c s)
  define p where "p = (10::nat) ^ length s"
  from Cons have "Suc (digit_val c) \<le> 10" and v: "int_of_str s < p"
    by (simp_all add: digit_cases p_def Suc_le_eq)
  then have "Suc (digit_val c) * p \<le> 10 * p" by (intro mult_le_mono1)
  then have "digit_val c * p + p \<le> 10 * p" by simp
  with v have "digit_val c * p + int_of_str s < 10 * p" by linarith
  then have "digit_val c * 10 ^ length s + int_of_str s < 10 * 10 ^ length s"
    by (simp only: p_def)
  then show ?case by (simp add: int_of_str_Cons)
qed

text \<open>On digit strings of the same length the order of the strings is that of the numbers.\<close>

lemma str_ge_numeric:
  "length a = length b \<Longrightarrow> list_all is_digit a \<Longrightarrow> list_all is_digit b \<Longrightarrow>
   str_ge a b \<longleftrightarrow> int_of_str b \<le> int_of_str a"
proof (induction a b rule: list_induct2)
  case Nil
  then show ?case by simp
next
  case (Cons x xs y ys)
  then have ih: "str_ge xs ys \<longleftrightarrow> int_of_str ys \<le> int_of_str xs" by simp
  from Cons.prems have dx: "(of_char x :: nat) = 48 + digit_val x"
    and dy: "(of_char y :: nat) = 48 + digit_val y"
    by (simp_all add: digit_cases)
  from Cons.prems have bx: "int_of_str xs < 10 ^ length xs"
    and "int_of_str ys < 10 ^ length ys"
    by (simp_all add: int_of_str_bound)
  with Cons.hyps have bv: "int_of_str ys < 10 ^ length xs" by simp
  have e: "x = y \<longleftrightarrow> digit_val x = digit_val y"
    using dx dy by (metis add_left_cancel of_char_eq_iff)
  define p where "p = (10::nat) ^ length xs"
  define m where "m = digit_val x"
  define n where "n = digit_val y"
  define u where "u = int_of_str xs"
  define v where "v = int_of_str ys"
  have "(n < m \<or> (m = n \<and> v \<le> u)) \<longleftrightarrow> n * p + v \<le> m * p + u" if "u < p" "v < p"
  proof (cases "n < m")
    case True
    then have "Suc n \<le> m" by simp
    then have "Suc n * p \<le> m * p" by (rule mult_le_mono1)
    with that show ?thesis using True by simp
  next
    case False
    show ?thesis
    proof (cases "m = n")
      case True
      then show ?thesis by simp
    next
      case False
      with \<open>\<not> n < m\<close> have "Suc m \<le> n" by simp
      then have "Suc m * p \<le> n * p" by (rule mult_le_mono1)
      with that False \<open>\<not> n < m\<close> show ?thesis by simp
    qed
  qed
  then show ?case
    using bx bv ih e Cons.hyps
    unfolding p_def m_def n_def u_def v_def
    by (simp add: int_of_str_Cons dx dy)
qed

lemma int_of_str_of_nat: "int_of_str (str_of_nat n) = n"
proof (induction n rule: str_of_nat.induct)
  case (1 n)
  have d: "digit_val (''0123456789'' ! k) = k" if "k < 10" for k
  proof -
    from that have "k \<in> {0, 1, 2, 3, 4, 5, 6, 7, 8, 9}" by auto
    then show ?thesis by (auto simp: digit_val_def)
  qed
  show ?case
  proof (cases "n < 10")
    case True
    then show ?thesis
      by (subst str_of_nat.simps) (simp add: int_of_str_def d del: nth_Cons_numeral)
  next
    case False
    with 1 have "int_of_str (str_of_nat (n div 10)) = n div 10" by simp
    moreover have "digit_val (''0123456789'' ! (n mod 10)) = n mod 10" by (rule d) simp
    ultimately show ?thesis using False
      by (subst str_of_nat.simps) (simp add: int_of_str_snoc del: nth_Cons_numeral)
  qed
qed

lemma match_serial_digits: "match_serial t = Some (m0, e) \<Longrightarrow> all_digits e"
proof -
  assume "match_serial t = Some (m0, e)"
  then have "e = takeWhile is_digit t \<and> e \<noteq> []"
    by (auto simp: match_serial_def Let_def split: if_splits list.splits)
  then show ?thesis
    by (auto simp: all_digits_def list_all_iff dest: set_takeWhileD)
qed

lemma search_serial_digits: "search_serial t = Some (m0, e) \<Longrightarrow> all_digits e"
  by (induction t) (auto split: option.splits dest: match_serial_digits)

text \<open>
  Where it writes over a file whose serial has as many digits as the serial of the day,
  \<open>write_nsd_zone\<close> chooses a serial above the one on disk.
\<close>

lemma serial_increases_same_length:
  assumes "all_digits now" "search_serial existing = Some (m0, e)" "length e = length now"
    and "choose_serial zone now (Some existing) = Some serial"
  shows "int_of_str e < int_of_str serial"
proof -
  from assms(2) have de: "list_all is_digit e" using search_serial_digits all_digits_def by blast
  from assms(1) have dn: "list_all is_digit now" by (simp add: all_digits_def)
  note n = str_ge_numeric [OF assms(3) de dn]
  show ?thesis
  proof (cases "str_ge e now")
    case True
    with assms(2,4) have "serial = str_of_nat (int_of_str e + 1)"
      by (auto simp: choose_serial_def Let_def split: if_splits)
    then show ?thesis by (simp add: int_of_str_of_nat)
  next
    case False
    with assms(2,4) have "serial = now"
      by (auto simp: choose_serial_def Let_def split: if_splits)
    with False n show ?thesis by simp
  qed
qed


text \<open>
  The example of the specification: on the day of the candidate 2024060100, a changed
  zone whose file has the serial 2024060199 is written with the serial 2024060200.
\<close>

lemma serial_rollover:
  "search_serial existing = Some (m0, ''2024060199'') \<Longrightarrow>
   zone \<noteq> replace_str m0 ''__SERIAL__     ; serial number'' existing \<Longrightarrow>
   choose_serial zone ''2024060100'' (Some existing) = Some ''2024060200''"
  by (simp add: choose_serial_def int_of_str_def digit_val_def str_of_nat.simps)

end
